theory Spec2Isabelle
  imports Complex_Main
begin

section \<open>The centroid manipulator of the SRT controller\<close>

text \<open>
  A shallow embedding of \<^verbatim>\<open>src/ctrl/srt/srt_CentroidMode.cpp\<close>: the class
  \<^verbatim>\<open>CentroidMode\<close> with \<^verbatim>\<open>updateCursor\<close>, \<^verbatim>\<open>moveCentroid\<close>,
  \<^verbatim>\<open>pushEventTarget\<close> and \<^verbatim>\<open>getWorldCentroidPos\<close>.

  The C++ \<^verbatim>\<open>float\<close> is modelled by \<^typ>\<open>real\<close>: rounding, infinities and NaN are
  outside the model. The member data of the manipulator is a record that every method
  takes and returns; the objects it writes to (the command stack, the command objects,
  the notification bus, the posture of the key owner) are one more record that is
  threaded through the calls; what it only reads (the matrices of the key owner, the
  node and its time line, the camera, the cursor, the answer of the command stack to
  \<^verbatim>\<open>isModifiable\<close>) is the input of a call.
\<close>

subsection \<open>Vectors\<close>

datatype QVector2D = QVector2D (vx: real) (vy: real)

datatype QVector3D = QVector3D (x3: real) (y3: real) (z3: real)

text \<open>\<^verbatim>\<open>operator+\<close>, \<^verbatim>\<open>operator-\<close> and \<^verbatim>\<open>length()\<close> of \<^verbatim>\<open>QVector2D\<close>.\<close>

definition vadd :: "QVector2D \<Rightarrow> QVector2D \<Rightarrow> QVector2D" where
  "vadd a b = QVector2D (vx a + vx b) (vy a + vy b)"

definition vsub :: "QVector2D \<Rightarrow> QVector2D \<Rightarrow> QVector2D" where
  "vsub a b = QVector2D (vx a - vx b) (vy a - vy b)"

definition vlength :: "QVector2D \<Rightarrow> real" where
  "vlength a = sqrt (vx a * vx a + vy a * vy a)"

text \<open>The conversions \<^verbatim>\<open>QVector3D(const QVector2D&)\<close> (with z = 0) and
  \<^verbatim>\<open>QVector3D::toVector2D()\<close> (dropping z).\<close>

definition toVector3D :: "QVector2D \<Rightarrow> QVector3D" where
  "toVector3D a = QVector3D (vx a) (vy a) 0"

definition toVector2D :: "QVector3D \<Rightarrow> QVector2D" where
  "toVector2D a = QVector2D (x3 a) (y3 a)"

subsection \<open>Matrices\<close>

text \<open>
  \<^verbatim>\<open>QMatrix4x4\<close> belongs to Qt, not to this repository. The model is parametric in
  the matrix type \<open>'m\<close> and takes the three operations the source uses as a parameter:
  the product of two matrices, \<^verbatim>\<open>inverted(bool* invertible)\<close>, which returns a matrix
  together with the flag, and the image of a \<^verbatim>\<open>QVector3D\<close> under a matrix.
\<close>

record 'm QMatrix4x4 =
  mtimes :: "'m \<Rightarrow> 'm \<Rightarrow> 'm"
  inverted :: "'m \<Rightarrow> 'm \<times> bool"
  mapVector :: "'m \<Rightarrow> QVector3D \<Rightarrow> QVector3D"

text \<open>The three matrices that \<^verbatim>\<open>KeyOwner\<close> exposes.\<close>

record 'm KeyOwner =
  mtx :: 'm
  locSRMtx :: 'm
  locMtx :: 'm

subsection \<open>Nodes, time lines and events\<close>

datatype error = AssertionFailed | DanglingCommandRef

datatype TimeKeyType = TimeKeyType_SRT | TimeKeyType_Image

text \<open>
  \<^verbatim>\<open>TimeLine::map(type)\<close> is a \<^verbatim>\<open>QMap\<close> from frames to keys. The source only
  iterates over it and reads \<^verbatim>\<open>itr.key()\<close>, so a time line is modelled by the frames
  of each map, in iteration order.
\<close>

record TimeLine =
  keysOf :: "TimeKeyType \<Rightarrow> int list"

text \<open>
  An \<^verbatim>\<open>ObjectNode\<close>: an identity, \<^verbatim>\<open>canHoldChild()\<close>, \<^verbatim>\<open>timeLine()\<close> (a pointer
  that may be null) and \<^verbatim>\<open>children()\<close>.
\<close>

datatype ObjectNode =
  ObjectNode (nodeId: nat) (canHoldChild: bool) (timeLine: "TimeLine option")
    (children: "ObjectNode list")

datatype Target = Target nat TimeKeyType int

datatype TimeLineEventType = Type_None | Type_ChangeKeyValue

record TimeLineEvent =
  eventType :: TimeLineEventType
  targets :: "Target list"

text \<open>The default constructed event, and \<^verbatim>\<open>setType\<close> and \<^verbatim>\<open>pushTarget\<close>: every
  call of \<^verbatim>\<open>pushTarget\<close> adds one target.\<close>

definition newTimeLineEvent :: TimeLineEvent where
  "newTimeLineEvent = \<lparr>eventType = Type_None, targets = []\<rparr>"

definition setType :: "TimeLineEventType \<Rightarrow> TimeLineEvent \<Rightarrow> TimeLineEvent" where
  "setType t ev = ev\<lparr>eventType := t\<rparr>"

definition pushTarget :: "nat \<Rightarrow> TimeKeyType \<Rightarrow> int \<Rightarrow> TimeLineEvent \<Rightarrow> TimeLineEvent" where
  "pushTarget n t k ev = ev\<lparr>targets := targets ev @ [Target n t k]\<rparr>"

subsection \<open>pushEventTarget\<close>

text \<open>The loop \<^verbatim>\<open>for (itr = map.begin(); itr != map.end(); ++itr) pushTarget(node, type, itr.key())\<close>.\<close>

fun pushKeys :: "nat \<Rightarrow> TimeKeyType \<Rightarrow> int list \<Rightarrow> TimeLineEvent \<Rightarrow> TimeLineEvent" where
  "pushKeys n t [] ev = ev"
| "pushKeys n t (k # ks) ev = pushKeys n t ks (pushTarget n t k ev)"

text \<open>The loop over \<^verbatim>\<open>aTarget.children()\<close>; \<^verbatim>\<open>XC_PTR_ASSERT(child->timeLine())\<close>
  stops the program at a child without a time line.\<close>

fun pushChildren :: "ObjectNode list \<Rightarrow> TimeLineEvent \<Rightarrow> error + TimeLineEvent" where
  "pushChildren [] ev = Inr ev"
| "pushChildren (c # cs) ev =
     (case timeLine c of
        None \<Rightarrow> Inl AssertionFailed
      | Some tline \<Rightarrow>
          pushChildren cs (pushKeys (nodeId c) TimeKeyType_SRT (keysOf tline TimeKeyType_SRT) ev))"

definition pushEventTarget :: "ObjectNode \<Rightarrow> TimeLineEvent \<Rightarrow> error + TimeLineEvent" where
  "pushEventTarget aTarget aEvent =
     (case timeLine aTarget of
        None \<Rightarrow> Inl AssertionFailed
      | Some tline \<Rightarrow>
          (let ev = pushKeys (nodeId aTarget) TimeKeyType_SRT (keysOf tline TimeKeyType_SRT) aEvent
           in if canHoldChild aTarget
              then pushChildren (children aTarget) ev
              else Inr (pushKeys (nodeId aTarget) TimeKeyType_SRT
                          (keysOf tline TimeKeyType_Image) ev)))"

text \<open>The precondition that the assertions of \<^verbatim>\<open>pushEventTarget\<close> check: the node has
  a time line, and so has every direct child of a node that can hold children.\<close>

definition hasTimeLines :: "ObjectNode \<Rightarrow> bool" where
  "hasTimeLines n \<longleftrightarrow>
     timeLine n \<noteq> None \<and>
     (canHoldChild n \<longrightarrow> list_all (\<lambda>c. timeLine c \<noteq> None) (children n))"

subsection \<open>Commands, the command stack and the project\<close>

text \<open>
  Modelled from the spec: the class \<^verbatim>\<open>CentroidMover\<close> (declared in
  \<^verbatim>\<open>ctrl/srt/srt_CentroidMode.h\<close> or nearby, not under src/). The spec describes it
  as a command "capturing (Node, baseCenterLocal, newLocalCenter)" whose
  \<^verbatim>\<open>modifyValue\<close> "replaces its stored target value in place".
\<close>

record CentroidMover =
  moverNode :: nat
  moverFrom :: QVector2D
  moverTo :: QVector2D

definition modifyValue :: "QVector2D \<Rightarrow> CentroidMover \<Rightarrow> CentroidMover" where
  "modifyValue v c = c\<lparr>moverTo := v\<rparr>"

text \<open>The listeners that \<^verbatim>\<open>moveCentroid\<close> hands to the macro: a
  \<^verbatim>\<open>TimeLineUtil::Notifier\<close> with its event, and an
  \<^verbatim>\<open>ObjectNodeUtil::AttributeNotifier\<close> for the node.\<close>

datatype Listener = Notifier TimeLineEvent | AttributeNotifier nat

text \<open>One \<^verbatim>\<open>stack.push(command)\<close> inside a \<^verbatim>\<open>cmnd::ScopedMacro\<close>: the name of the
  macro, the listeners the macro grabbed, and the reference to the command.\<close>

record Pushed =
  macroName :: string
  listeners :: "Listener list"
  command :: nat

text \<open>
  Everything \<^verbatim>\<open>CentroidMode\<close> writes to outside itself. A command object lives in
  \<open>commands\<close>, and a reference to it (\<^verbatim>\<open>mCommandRef\<close>) is its index there;
  \<^verbatim>\<open>new CentroidMover\<close> appends. \<open>pushed\<close> is the sequence of pushes the command
  stack received, \<open>timeLineModified\<close> and \<open>nodeAttributeModified\<close> are the calls of
  \<^verbatim>\<open>Project::onTimeLineModified\<close> and \<^verbatim>\<open>Project::onNodeAttributeModified\<close>, and
  \<open>postureUpdates\<close> counts the calls of \<^verbatim>\<open>KeyOwner::updatePosture\<close>. The key frames of
  the node are written by the commands only, so a call that leaves this record as it is
  has written nothing.
\<close>

record World =
  commands :: "CentroidMover list"
  pushed :: "Pushed list"
  timeLineModified :: "TimeLineEvent list"
  nodeAttributeModified :: "nat list"
  postureUpdates :: nat

subsection \<open>The manipulator and the input of a call\<close>

record CentroidMode =
  mFocusing :: bool
  mMoving :: bool
  mBaseVec :: QVector2D
  mBaseCenter :: QVector2D
  mCommandRef :: "nat option"

record CameraInfo =
  toScreenLength :: "real \<Rightarrow> real"

record AbstractCursor =
  worldPos :: QVector2D
  emitsLeftPressedEvent :: bool
  emitsLeftDraggedEvent :: bool
  emitsLeftReleasedEvent :: bool

text \<open>
  What one call of \<^verbatim>\<open>updateCursor\<close> reads: its two arguments, the key owner's
  matrices and the node as they are at the call, and the answer
  \<^verbatim>\<open>mProject.commandStack().isModifiable(ref)\<close> that the command stack (not under
  src/) would give at this call for each reference.
\<close>

record 'm Frame =
  keyOwner :: "'m KeyOwner"
  target :: ObjectNode
  camera :: CameraInfo
  cursor :: AbstractCursor
  isModifiable :: "nat \<Rightarrow> bool"

text \<open>\<^verbatim>\<open>Constant::transMin()\<close> and \<^verbatim>\<open>Constant::transMax()\<close> of
  \<^verbatim>\<open>core/Constant.h\<close> (not under src/) are parameters.\<close>

record Constant =
  transMin :: real
  transMax :: real

definition kCrossRadius :: real where
  "kCrossRadius = 30"

text \<open>
  Modelled from the spec: the macro \<^verbatim>\<open>xc_clamp(value, min, max)\<close> (not under src/).
  The spec: "Clamp both axes of newLocalCenter into [transMin, transMax]".
\<close>

definition xc_clamp :: "real \<Rightarrow> real \<Rightarrow> real \<Rightarrow> real" where
  "xc_clamp v lo hi = (if v < lo then lo else if hi < v then hi else v)"

text \<open>The constructor: all members are value initialised, and the node must have a
  time line.\<close>

definition newCentroidMode :: "ObjectNode \<Rightarrow> error + CentroidMode" where
  "newCentroidMode aTarget =
     (case timeLine aTarget of
        None \<Rightarrow> Inl AssertionFailed
      | Some _ \<Rightarrow>
          Inr \<lparr>mFocusing = False, mMoving = False, mBaseVec = QVector2D 0 0,
               mBaseCenter = QVector2D 0 0, mCommandRef = None\<rparr>)"

subsection \<open>getWorldCentroidPos and moveCentroid\<close>

definition getWorldCentroidPos :: "'m QMatrix4x4 \<Rightarrow> 'm KeyOwner \<Rightarrow> QVector2D" where
  "getWorldCentroidPos ops ko =
     toVector2D (mapVector ops (mtimes ops (mtx ko) (locMtx ko)) (QVector3D 0 0 0))"

text \<open>The branch "modify command" of \<^verbatim>\<open>moveCentroid\<close>, for the reference \<open>r\<close> held in
  \<^verbatim>\<open>mCommandRef\<close>. Writing through a reference to no command object is undefined
  behaviour in C++; the model reports it as an error.\<close>

definition modifyCommand ::
  "'m Frame \<Rightarrow> QVector2D \<Rightarrow> nat \<Rightarrow> CentroidMode \<Rightarrow> World \<Rightarrow> error + CentroidMode \<times> World" where
  "modifyCommand f newCenter r s w =
     (if r < length (commands w)
      then
        (let w1 = w\<lparr>commands := (commands w)[r := modifyValue newCenter (commands w ! r)]\<rparr>
         in case pushEventTarget (target f) (setType Type_ChangeKeyValue newTimeLineEvent) of
              Inl e \<Rightarrow> Inl e
            | Inr event \<Rightarrow>
                Inr (s, w1\<lparr>timeLineModified := timeLineModified w1 @ [event],
                           nodeAttributeModified :=
                             nodeAttributeModified w1 @ [nodeId (target f)]\<rparr>))
      else Inl DanglingCommandRef)"

text \<open>The branch that opens the macro "move centroid", creates the command and pushes
  it.\<close>

definition pushCommand ::
  "'m Frame \<Rightarrow> QVector2D \<Rightarrow> CentroidMode \<Rightarrow> World \<Rightarrow> error + CentroidMode \<times> World" where
  "pushCommand f newCenter s w =
     (case pushEventTarget (target f) (setType Type_ChangeKeyValue newTimeLineEvent) of
        Inl e \<Rightarrow> Inl e
      | Inr event \<Rightarrow>
          (let r = length (commands w);
               mover = \<lparr>moverNode = nodeId (target f), moverFrom = mBaseCenter s,
                        moverTo = newCenter\<rparr>;
               entry = \<lparr>macroName = ''move centroid'',
                        listeners = [Notifier event, AttributeNotifier (nodeId (target f))],
                        command = r\<rparr>
           in Inr (s\<lparr>mCommandRef := Some r\<rparr>,
                   w\<lparr>commands := commands w @ [mover], pushed := pushed w @ [entry]\<rparr>)))"

definition clampCenter :: "Constant \<Rightarrow> QVector2D \<Rightarrow> QVector2D" where
  "clampCenter k aNewCenter =
     QVector2D (xc_clamp (vx aNewCenter) (transMin k) (transMax k))
               (xc_clamp (vy aNewCenter) (transMin k) (transMax k))"

definition moveCentroid ::
  "Constant \<Rightarrow> 'm Frame \<Rightarrow> QVector2D \<Rightarrow> CentroidMode \<Rightarrow> World \<Rightarrow> error + CentroidMode \<times> World" where
  "moveCentroid k f aNewCenter s w =
     (case timeLine (target f) of
        None \<Rightarrow> Inl AssertionFailed
      | Some _ \<Rightarrow>
          (let newCenter = clampCenter k aNewCenter
           in case mCommandRef s of
                None \<Rightarrow> pushCommand f newCenter s w
              | Some r \<Rightarrow>
                  if isModifiable f r
                  then modifyCommand f newCenter r s w
                  else pushCommand f newCenter s w))"

subsection \<open>updateCursor\<close>

definition updatePosture :: "World \<Rightarrow> World" where
  "updatePosture w = w\<lparr>postureUpdates := Suc (postureUpdates w)\<rparr>"

text \<open>The result is the returned flag, the manipulator and the world after the call; the
  local variable \<^verbatim>\<open>mod\<close> is \<open>modified\<close> here.\<close>

definition updateCursor ::
  "'m QMatrix4x4 \<Rightarrow> Constant \<Rightarrow> 'm Frame \<Rightarrow> CentroidMode \<Rightarrow> World
     \<Rightarrow> error + bool \<times> CentroidMode \<times> World" where
  "updateCursor ops k f s w =
     (let worldMtx = mtimes ops (mtx (keyOwner f)) (locSRMtx (keyOwner f));
          (worldInvMtx, hasWorldInv) = inverted ops worldMtx;
          curPos = worldPos (cursor f);
          center = getWorldCentroidPos ops (keyOwner f);
          prevFocus = mFocusing s;
          s1 = s\<lparr>mFocusing :=
                   toScreenLength (camera f) (vlength (vsub center curPos)) \<le> kCrossRadius\<rparr>;
          modified = (prevFocus \<noteq> mFocusing s1)
      in if emitsLeftPressedEvent (cursor f)
         then
           Inr (True,
                if mFocusing s1 \<and> hasWorldInv
                then s1\<lparr>mMoving := True,
                        mBaseVec := vsub center curPos,
                        mBaseCenter := toVector2D (mapVector ops worldInvMtx (toVector3D center)),
                        mCommandRef := None\<rparr>
                else s1,
                w)
         else if emitsLeftDraggedEvent (cursor f)
         then
           (if mMoving s1 \<and> hasWorldInv
            then
              (let newLocalCenter =
                     mapVector ops worldInvMtx (toVector3D (vadd curPos (mBaseVec s1)))
               in case moveCentroid k f (toVector2D newLocalCenter) s1 w of
                    Inl e \<Rightarrow> Inl e
                  | Inr (s2, w2) \<Rightarrow> Inr (True, s2, updatePosture w2))
            else Inr (True, s1, w))
         else if emitsLeftReleasedEvent (cursor f)
         then Inr (True, s1\<lparr>mCommandRef := None, mMoving := False\<rparr>, w)
         else Inr (modified, s1, w))"

text \<open>A sequence of calls, one per input frame; an error stops it.\<close>

fun updateCursors ::
  "'m QMatrix4x4 \<Rightarrow> Constant \<Rightarrow> 'm Frame list \<Rightarrow> CentroidMode \<Rightarrow> World
     \<Rightarrow> error + CentroidMode \<times> World" where
  "updateCursors ops k [] s w = Inr (s, w)"
| "updateCursors ops k (f # fs) s w =
     (case updateCursor ops k f s w of
        Inl e \<Rightarrow> Inl e
      | Inr (_, s', w') \<Rightarrow> updateCursors ops k fs s' w')"

subsection \<open>Notions used to state the properties\<close>

text \<open>The inverse of the world matrix \<^verbatim>\<open>mtx * locSRMtx\<close> with its flag, whether the
  cursor is within \<^verbatim>\<open>kCrossRadius\<close> of the handle on the screen, and the local position
  of a world position, as \<^verbatim>\<open>updateCursor\<close> computes them from a frame.\<close>

definition worldInv :: "'m QMatrix4x4 \<Rightarrow> 'm Frame \<Rightarrow> 'm \<times> bool" where
  "worldInv ops f = inverted ops (mtimes ops (mtx (keyOwner f)) (locSRMtx (keyOwner f)))"

definition hasWorldInv :: "'m QMatrix4x4 \<Rightarrow> 'm Frame \<Rightarrow> bool" where
  "hasWorldInv ops f = snd (worldInv ops f)"

definition focusingAt :: "'m QMatrix4x4 \<Rightarrow> 'm Frame \<Rightarrow> bool" where
  "focusingAt ops f \<longleftrightarrow>
     toScreenLength (camera f)
       (vlength (vsub (getWorldCentroidPos ops (keyOwner f)) (worldPos (cursor f))))
     \<le> kCrossRadius"

definition toLocal :: "'m QMatrix4x4 \<Rightarrow> 'm Frame \<Rightarrow> QVector2D \<Rightarrow> QVector2D" where
  "toLocal ops f p = toVector2D (mapVector ops (fst (worldInv ops f)) (toVector3D p))"

text \<open>The cursor events are tested in the order press, drag, release; these are the
  conditions under which each branch is taken.\<close>

definition pressFrame :: "'m Frame \<Rightarrow> bool" where
  "pressFrame f \<longleftrightarrow> emitsLeftPressedEvent (cursor f)"

definition dragFrame :: "'m Frame \<Rightarrow> bool" where
  "dragFrame f \<longleftrightarrow> \<not> emitsLeftPressedEvent (cursor f) \<and> emitsLeftDraggedEvent (cursor f)"

definition releaseFrame :: "'m Frame \<Rightarrow> bool" where
  "releaseFrame f \<longleftrightarrow>
     \<not> emitsLeftPressedEvent (cursor f) \<and> \<not> emitsLeftDraggedEvent (cursor f) \<and>
     emitsLeftReleasedEvent (cursor f)"

definition idleFrame :: "'m Frame \<Rightarrow> bool" where
  "idleFrame f \<longleftrightarrow>
     \<not> emitsLeftPressedEvent (cursor f) \<and> \<not> emitsLeftDraggedEvent (cursor f) \<and>
     \<not> emitsLeftReleasedEvent (cursor f)"

text \<open>Both components of a vector lie in \<^verbatim>\<open>[transMin, transMax]\<close>.\<close>

definition inTransRange :: "Constant \<Rightarrow> QVector2D \<Rightarrow> bool" where
  "inTransRange k v \<longleftrightarrow>
     transMin k \<le> vx v \<and> vx v \<le> transMax k \<and> transMin k \<le> vy v \<and> vy v \<le> transMax k"

text \<open>The condition \<^verbatim>\<open>mCommandRef && isModifiable(mCommandRef)\<close> of
  \<^verbatim>\<open>moveCentroid\<close>; that \<^verbatim>\<open>mCommandRef\<close>, when set, refers to a command object; and
  the event that \<^verbatim>\<open>moveCentroid\<close> builds for its notification.\<close>

definition modifiableRef :: "'m Frame \<Rightarrow> CentroidMode \<Rightarrow> bool" where
  "modifiableRef f s = (case mCommandRef s of None \<Rightarrow> False | Some r \<Rightarrow> isModifiable f r)"

definition liveRef :: "CentroidMode \<Rightarrow> World \<Rightarrow> bool" where
  "liveRef s w = (case mCommandRef s of None \<Rightarrow> True | Some r \<Rightarrow> r < length (commands w))"

definition keyValueEvent :: "ObjectNode \<Rightarrow> error + TimeLineEvent" where
  "keyValueEvent n = pushEventTarget n (setType Type_ChangeKeyValue newTimeLineEvent)"

text \<open>What a press that grabs the handle stores: the offset from the cursor to the
  handle, and the local position of the handle.\<close>

definition pressBaseVec :: "'m QMatrix4x4 \<Rightarrow> 'm Frame \<Rightarrow> QVector2D" where
  "pressBaseVec ops p = vsub (getWorldCentroidPos ops (keyOwner p)) (worldPos (cursor p))"

definition pressBaseCenter :: "'m QMatrix4x4 \<Rightarrow> 'm Frame \<Rightarrow> QVector2D" where
  "pressBaseCenter ops p = toLocal ops p (getWorldCentroidPos ops (keyOwner p))"

text \<open>The clamped local position that a drag frame hands to the command, for a given
  base vector.\<close>

definition dragValue :: "'m QMatrix4x4 \<Rightarrow> Constant \<Rightarrow> 'm Frame \<Rightarrow> QVector2D \<Rightarrow> QVector2D" where
  "dragValue ops k f baseVec =
     clampCenter k (toLocal ops f (vadd (worldPos (cursor f)) baseVec))"

text \<open>A drag frame on which \<^verbatim>\<open>updateCursor\<close> can move the centroid: the world matrix
  is invertible, and the time lines that \<^verbatim>\<open>moveCentroid\<close> asserts are there.\<close>

definition dragStep :: "'m QMatrix4x4 \<Rightarrow> 'm Frame \<Rightarrow> bool" where
  "dragStep ops f \<longleftrightarrow> dragFrame f \<and> hasWorldInv ops f \<and> hasTimeLines (target f)"

subsection \<open>A concrete instance\<close>

text \<open>
  To run the model, matrices are instantiated by the uniform scalings followed by a
  translation: \<open>(a, x, y)\<close> maps a point \<open>p\<close> to \<open>a * p + (x, y)\<close>. They are closed under
  product, and such a matrix is invertible unless \<open>a = 0\<close>; as Qt does,
  \<open>inverted\<close> returns the identity for a matrix that is not.
\<close>

definition scalingOps :: "(real \<times> real \<times> real) QMatrix4x4" where
  "scalingOps =
     \<lparr>mtimes = (\<lambda>(a, x, y) (b, u, v). (a * b, a * u + x, a * v + y)),
      inverted = (\<lambda>(a, x, y).
        if a = 0 then ((1, 0, 0), False) else ((1 / a, - x / a, - y / a), True)),
      mapVector = (\<lambda>(a, x, y) p. QVector3D (a * x3 p + x) (a * y3 p + y) (a * z3 p))\<rparr>"

text \<open>A key owner whose handle is at the world position (10, 20) and whose world matrix
  scales by 2, and one whose world matrix is singular.\<close>

definition exOwner :: "(real \<times> real \<times> real) KeyOwner" where
  "exOwner = \<lparr>mtx = (1, 0, 0), locSRMtx = (2, 0, 0), locMtx = (2, 10, 20)\<rparr>"

definition exSingularOwner :: "(real \<times> real \<times> real) KeyOwner" where
  "exSingularOwner = \<lparr>mtx = (1, 0, 0), locSRMtx = (0, 0, 0), locMtx = (2, 10, 20)\<rparr>"

definition exConstant :: Constant where
  "exConstant = \<lparr>transMin = - 100, transMax = 100\<rparr>"

definition exCamera :: CameraInfo where
  "exCamera = \<lparr>toScreenLength = (\<lambda>l. l)\<rparr>"

text \<open>A time line with the given frames in its two maps.\<close>

definition exTimeLine :: "int list \<Rightarrow> int list \<Rightarrow> TimeLine" where
  "exTimeLine srt img =
     \<lparr>keysOf = (\<lambda>t. case t of TimeKeyType_SRT \<Rightarrow> srt | TimeKeyType_Image \<Rightarrow> img)\<rparr>"

text \<open>A layer (it cannot hold children) with three SRT keys and one image key; a layer
  with three SRT keys and no image key; a folder with three SRT keys and two children
  that have three SRT keys each.\<close>

definition exLayer :: ObjectNode where
  "exLayer = ObjectNode 1 False (Some (exTimeLine [0, 10, 20] [5])) []"

definition exPlainLayer :: ObjectNode where
  "exPlainLayer = ObjectNode 2 False (Some (exTimeLine [0, 10, 20] [])) []"

definition exFolder :: ObjectNode where
  "exFolder =
     ObjectNode 3 True (Some (exTimeLine [0, 10, 20] [7]))
       [ObjectNode 4 False (Some (exTimeLine [1, 2, 3] [8])) [],
        ObjectNode 5 False (Some (exTimeLine [4, 5, 6] [])) []]"

text \<open>A frame on \<open>exLayer\<close> with the cursor at \<open>(px, py)\<close>, the three event flags, and a
  command stack that answers \<open>m\<close> for every reference.\<close>

definition exFrame ::
  "(real \<times> real \<times> real) KeyOwner \<Rightarrow> real \<Rightarrow> real \<Rightarrow> bool \<Rightarrow> bool \<Rightarrow> bool \<Rightarrow> bool
     \<Rightarrow> (real \<times> real \<times> real) Frame" where
  "exFrame ko px py pressed dragged released m =
     \<lparr>keyOwner = ko, target = exLayer, camera = exCamera,
      cursor = \<lparr>worldPos = QVector2D px py, emitsLeftPressedEvent = pressed,
                emitsLeftDraggedEvent = dragged, emitsLeftReleasedEvent = released\<rparr>,
      isModifiable = (\<lambda>r. m)\<rparr>"

definition exMode :: CentroidMode where
  "exMode = \<lparr>mFocusing = False, mMoving = False, mBaseVec = QVector2D 0 0,
             mBaseCenter = QVector2D 0 0, mCommandRef = None\<rparr>"

definition exWorld :: World where
  "exWorld = \<lparr>commands = [], pushed = [], timeLineModified = [],
              nodeAttributeModified = [], postureUpdates = 0\<rparr>"

text \<open>A manipulator in the middle of a gesture on \<open>exLayer\<close>, and a world in which
  it has pushed one command.\<close>

definition exEntry :: Pushed where
  "exEntry =
     \<lparr>macroName = ''move centroid'',
      listeners = [Notifier \<lparr>eventType = Type_ChangeKeyValue,
                             targets = [Target 1 TimeKeyType_SRT 0, Target 1 TimeKeyType_SRT 10,
                                        Target 1 TimeKeyType_SRT 20, Target 1 TimeKeyType_SRT 5]\<rparr>,
                   AttributeNotifier 1],
      command = 0\<rparr>"

definition exDragging :: CentroidMode where
  "exDragging = \<lparr>mFocusing = True, mMoving = True, mBaseVec = QVector2D 3 4,
                 mBaseCenter = QVector2D 5 10, mCommandRef = Some 0\<rparr>"

definition exDragWorld :: World where
  "exDragWorld =
     \<lparr>commands = [\<lparr>moverNode = 1, moverFrom = QVector2D 5 10, moverTo = QVector2D 6 11\<rparr>],
      pushed = [exEntry], timeLineModified = [], nodeAttributeModified = [],
      postureUpdates = 1\<rparr>"

text \<open>A gesture on the handle of \<open>exLayer\<close>: a press at (7, 16), drags to (17, 36) and
  to (397, 16), and the release.\<close>

definition exGesture :: "(real \<times> real \<times> real) Frame list" where
  "exGesture =
     [exFrame exOwner 7 16 True False False True,
      exFrame exOwner 17 36 False True False True,
      exFrame exOwner 397 16 False True False True,
      exFrame exOwner 397 16 False False True True]"

subsection \<open>Properties of pushEventTarget\<close>

lemma pushKeys_eq:
  "pushKeys n t ks ev = ev\<lparr>targets := targets ev @ map (Target n t) ks\<rparr>"
  by (induction ks arbitrary: ev) (simp_all add: pushTarget_def)

lemma pushKeys_targets: "targets (pushKeys n t ks ev) = targets ev @ map (Target n t) ks"
  by (simp add: pushKeys_eq)

lemma pushKeys_length: "length (targets (pushKeys n t ks ev)) = length (targets ev) + length ks"
  by (simp add: pushKeys_eq)

lemma pushKeys_eventType: "eventType (pushKeys n t ks ev) = eventType ev"
  by (simp add: pushKeys_eq)

lemma pushChildren_total:
  "list_all (\<lambda>c. timeLine c \<noteq> None) cs \<Longrightarrow> \<exists>ev'. pushChildren cs ev = Inr ev'"
  by (induction cs arbitrary: ev) auto

lemma pushEventTarget_total:
  "hasTimeLines n \<Longrightarrow> \<exists>ev'. pushEventTarget n ev = Inr ev'"
  by (cases "canHoldChild n") (auto simp: hasTimeLines_def pushEventTarget_def pushChildren_total)

lemma pushChildren_two:
  "timeLine c1 = Some t1 \<Longrightarrow> timeLine c2 = Some t2 \<Longrightarrow>
   pushChildren [c1, c2] ev =
     Inr (pushKeys (nodeId c2) TimeKeyType_SRT (keysOf t2 TimeKeyType_SRT)
           (pushKeys (nodeId c1) TimeKeyType_SRT (keysOf t1 TimeKeyType_SRT) ev))"
  by simp

lemma keyValueEvent_total: "hasTimeLines n \<Longrightarrow> \<exists>ev. keyValueEvent n = Inr ev"
  unfolding keyValueEvent_def by (rule pushEventTarget_total)

subsection \<open>The branches of moveCentroid\<close>

text \<open>What \<^verbatim>\<open>moveCentroid\<close> returns in its branch "create command" and in its branch
  "modify command", and that one of the two is taken when the node has its time lines
  and \<^verbatim>\<open>mCommandRef\<close> is null or refers to a command object.\<close>

lemma moveCentroid_push:
  assumes "keyValueEvent (target f) = Inr event" and "\<not> modifiableRef f s"
  shows "moveCentroid k f v s w =
           Inr (s\<lparr>mCommandRef := Some (length (commands w))\<rparr>,
                w\<lparr>commands := commands w @
                     [\<lparr>moverNode = nodeId (target f), moverFrom = mBaseCenter s,
                       moverTo = clampCenter k v\<rparr>],
                  pushed := pushed w @
                     [\<lparr>macroName = ''move centroid'',
                       listeners = [Notifier event, AttributeNotifier (nodeId (target f))],
                       command = length (commands w)\<rparr>]\<rparr>)"
proof -
  from assms(1) have tl: "timeLine (target f) \<noteq> None"
    by (auto simp: keyValueEvent_def pushEventTarget_def split: option.splits)
  show ?thesis
    using assms tl
    by (auto simp: moveCentroid_def pushCommand_def modifiableRef_def keyValueEvent_def Let_def
          split: option.splits)
qed

lemma moveCentroid_modify:
  assumes "keyValueEvent (target f) = Inr event" and "mCommandRef s = Some r"
    and "isModifiable f r" and "r < length (commands w)"
  shows "moveCentroid k f v s w =
           Inr (s,
                w\<lparr>commands := (commands w)[r := modifyValue (clampCenter k v) (commands w ! r)],
                  timeLineModified := timeLineModified w @ [event],
                  nodeAttributeModified := nodeAttributeModified w @ [nodeId (target f)]\<rparr>)"
proof -
  from assms(1) have tl: "timeLine (target f) \<noteq> None"
    by (auto simp: keyValueEvent_def pushEventTarget_def split: option.splits)
  show ?thesis
    using assms tl
    by (auto simp: moveCentroid_def modifyCommand_def keyValueEvent_def Let_def
          split: option.splits)
qed

lemma moveCentroid_cases [consumes 2, case_names modify push]:
  assumes "hasTimeLines (target f)" and "liveRef s w"
  obtains (modify) r event where
      "mCommandRef s = Some r" "isModifiable f r" "r < length (commands w)"
      "keyValueEvent (target f) = Inr event"
      "moveCentroid k f v s w =
         Inr (s,
              w\<lparr>commands := (commands w)[r := modifyValue (clampCenter k v) (commands w ! r)],
                timeLineModified := timeLineModified w @ [event],
                nodeAttributeModified := nodeAttributeModified w @ [nodeId (target f)]\<rparr>)"
  | (push) event where
      "\<not> modifiableRef f s" "keyValueEvent (target f) = Inr event"
      "moveCentroid k f v s w =
         Inr (s\<lparr>mCommandRef := Some (length (commands w))\<rparr>,
              w\<lparr>commands := commands w @
                   [\<lparr>moverNode = nodeId (target f), moverFrom = mBaseCenter s,
                     moverTo = clampCenter k v\<rparr>],
                pushed := pushed w @
                   [\<lparr>macroName = ''move centroid'',
                     listeners = [Notifier event, AttributeNotifier (nodeId (target f))],
                     command = length (commands w)\<rparr>]\<rparr>)"
proof -
  from assms(1) obtain event where ev: "keyValueEvent (target f) = Inr event"
    using keyValueEvent_total by blast
  show thesis
  proof (cases "modifiableRef f s")
    case True
    then obtain r where r: "mCommandRef s = Some r" "isModifiable f r"
      by (auto simp: modifiableRef_def split: option.splits)
    with assms(2) have "r < length (commands w)" by (simp add: liveRef_def)
    with r ev show thesis using moveCentroid_modify[OF ev r(1) r(2)] modify by blast
  next
    case False
    then show thesis using moveCentroid_push[OF ev False] ev push by blast
  qed
qed

lemma moveCentroid_keeps:
  assumes "moveCentroid k f v s w = Inr (s', w')"
  shows "mFocusing s' = mFocusing s \<and> mMoving s' = mMoving s \<and>
         mBaseVec s' = mBaseVec s \<and> mBaseCenter s' = mBaseCenter s"
  using assms
  by (auto simp: moveCentroid_def modifyCommand_def pushCommand_def Let_def
        split: option.splits if_splits sum.splits)

lemma xc_clamp_range: "lo \<le> hi \<Longrightarrow> lo \<le> xc_clamp v lo hi \<and> xc_clamp v lo hi \<le> hi"
  by (simp add: xc_clamp_def)

lemma clampCenter_range: "transMin k \<le> transMax k \<Longrightarrow> inTransRange k (clampCenter k v)"
  by (simp add: inTransRange_def clampCenter_def xc_clamp_range)

subsection \<open>The branches of updateCursor\<close>

text \<open>What \<^verbatim>\<open>updateCursor\<close> returns on a press, a drag, a release and a frame without
  event.\<close>

lemma updateCursor_press:
  "pressFrame f \<Longrightarrow>
   updateCursor ops k f s w =
     Inr (True,
          if focusingAt ops f \<and> hasWorldInv ops f
          then s\<lparr>mFocusing := True, mMoving := True,
                 mBaseVec := vsub (getWorldCentroidPos ops (keyOwner f)) (worldPos (cursor f)),
                 mBaseCenter := toLocal ops f (getWorldCentroidPos ops (keyOwner f)),
                 mCommandRef := None\<rparr>
          else s\<lparr>mFocusing := focusingAt ops f\<rparr>,
          w)"
  by (simp add: updateCursor_def pressFrame_def focusingAt_def hasWorldInv_def worldInv_def
        toLocal_def Let_def split_beta)

lemma updateCursor_drag:
  "dragFrame f \<Longrightarrow>
   updateCursor ops k f s w =
     (if mMoving s \<and> hasWorldInv ops f
      then case moveCentroid k f (toLocal ops f (vadd (worldPos (cursor f)) (mBaseVec s)))
                  (s\<lparr>mFocusing := focusingAt ops f\<rparr>) w of
             Inl e \<Rightarrow> Inl e
           | Inr (s2, w2) \<Rightarrow> Inr (True, s2, updatePosture w2)
      else Inr (True, s\<lparr>mFocusing := focusingAt ops f\<rparr>, w))"
  by (simp add: updateCursor_def dragFrame_def focusingAt_def hasWorldInv_def worldInv_def
        toLocal_def Let_def split_beta)

lemma updateCursor_release:
  "releaseFrame f \<Longrightarrow>
   updateCursor ops k f s w =
     Inr (True, s\<lparr>mFocusing := focusingAt ops f, mCommandRef := None, mMoving := False\<rparr>, w)"
  by (simp add: updateCursor_def releaseFrame_def focusingAt_def Let_def split_beta)

lemma updateCursor_idle:
  "idleFrame f \<Longrightarrow>
   updateCursor ops k f s w =
     Inr (mFocusing s \<noteq> focusingAt ops f, s\<lparr>mFocusing := focusingAt ops f\<rparr>, w)"
  by (simp add: updateCursor_def idleFrame_def focusingAt_def Let_def split_beta)

lemma frame_cases:
  "pressFrame f \<or> dragFrame f \<or> releaseFrame f \<or> idleFrame f"
  by (auto simp: pressFrame_def dragFrame_def releaseFrame_def idleFrame_def)

lemma updateCursor_grab:
  assumes "pressFrame p" and "focusingAt ops p" and "hasWorldInv ops p"
  shows "updateCursor ops k p s w =
           Inr (True,
                s\<lparr>mFocusing := True, mMoving := True, mBaseVec := pressBaseVec ops p,
                  mBaseCenter := pressBaseCenter ops p, mCommandRef := None\<rparr>,
                w)"
  using assms by (simp add: updateCursor_press pressBaseVec_def pressBaseCenter_def)

lemma updateCursor_focusing:
  assumes "updateCursor ops k f s w = Inr (m, s', w')"
  shows "mFocusing s' = focusingAt ops f"
proof -
  consider "pressFrame f" | "dragFrame f" | "releaseFrame f" | "idleFrame f"
    using frame_cases by blast
  then show ?thesis
  proof cases
    case 1 with assms show ?thesis by (auto simp: updateCursor_press split: if_splits)
  next
    case 2 with assms show ?thesis
      by (auto simp: updateCursor_drag split: if_splits sum.splits dest: moveCentroid_keeps)
  next
    case 3 with assms show ?thesis by (auto simp: updateCursor_release)
  next
    case 4 with assms show ?thesis by (auto simp: updateCursor_idle)
  qed
qed

lemma updateCursor_moving:
  assumes "mMoving s" and "updateCursor ops k f s w = Inr (m, s', w')"
  shows "mMoving s' \<longleftrightarrow> \<not> releaseFrame f"
proof -
  consider "pressFrame f" | "dragFrame f" | "releaseFrame f" | "idleFrame f"
    using frame_cases by blast
  then show ?thesis
  proof cases
    case 1 with assms show ?thesis
      by (auto simp: updateCursor_press releaseFrame_def pressFrame_def split: if_splits)
  next
    case 2 with assms show ?thesis
      by (auto simp: updateCursor_drag releaseFrame_def dragFrame_def
            split: if_splits sum.splits dest: moveCentroid_keeps)
  next
    case 3 with assms show ?thesis by (auto simp: updateCursor_release)
  next
    case 4 with assms show ?thesis
      by (auto simp: updateCursor_idle releaseFrame_def idleFrame_def)
  qed
qed

lemma updateCursor_drag_cases [consumes 3, case_names modify push]:
  assumes "dragStep ops f" and "mMoving s" and "liveRef s w"
  obtains (modify) r event where
      "mCommandRef s = Some r" "isModifiable f r" "r < length (commands w)"
      "updateCursor ops k f s w =
         Inr (True, s\<lparr>mFocusing := focusingAt ops f\<rparr>,
              w\<lparr>commands := (commands w)
                   [r := modifyValue (dragValue ops k f (mBaseVec s)) (commands w ! r)],
                timeLineModified := timeLineModified w @ [event],
                nodeAttributeModified := nodeAttributeModified w @ [nodeId (target f)],
                postureUpdates := Suc (postureUpdates w)\<rparr>)"
  | (push) event where
      "\<not> modifiableRef f s"
      "updateCursor ops k f s w =
         Inr (True, s\<lparr>mFocusing := focusingAt ops f, mCommandRef := Some (length (commands w))\<rparr>,
              w\<lparr>commands := commands w @
                   [\<lparr>moverNode = nodeId (target f), moverFrom = mBaseCenter s,
                     moverTo = dragValue ops k f (mBaseVec s)\<rparr>],
                pushed := pushed w @
                   [\<lparr>macroName = ''move centroid'',
                     listeners = [Notifier event, AttributeNotifier (nodeId (target f))],
                     command = length (commands w)\<rparr>],
                postureUpdates := Suc (postureUpdates w)\<rparr>)"
proof -
  let ?s = "s\<lparr>mFocusing := focusingAt ops f\<rparr>"
  let ?v = "toLocal ops f (vadd (worldPos (cursor f)) (mBaseVec s))"
  from assms(1) have f: "dragFrame f" "hasWorldInv ops f" "hasTimeLines (target f)"
    by (simp_all add: dragStep_def)
  have live: "liveRef ?s w" using assms(3) by (simp add: liveRef_def)
  from f(3) live show thesis
  proof (cases rule: moveCentroid_cases[where k = k and v = ?v])
    case (modify r event)
    with f assms(2) show thesis
      by (intro that(1)[of r event])
         (simp_all add: updateCursor_drag updatePosture_def dragValue_def)
  next
    case (push event)
    with f assms(2) show thesis
      by (intro that(2)[of event])
         (simp_all add: updateCursor_drag updatePosture_def dragValue_def modifiableRef_def)
  qed
qed

lemma updateCursor_drag_result:
  assumes "dragFrame f" and "mMoving s" and "hasWorldInv ops f"
    and "hasTimeLines (target f)" and "liveRef s w"
  shows "\<exists>s' w'. updateCursor ops k f s w = Inr (True, s', w') \<and> mMoving s' \<and>
           liveRef s' w' \<and> postureUpdates w' = Suc (postureUpdates w)"
proof -
  let ?s = "s\<lparr>mFocusing := focusingAt ops f\<rparr>"
  let ?v = "toLocal ops f (vadd (worldPos (cursor f)) (mBaseVec s))"
  have live: "liveRef ?s w" using assms(5) by (simp add: liveRef_def)
  from assms(4) live show ?thesis
  proof (cases rule: moveCentroid_cases[where k = k and v = ?v])
    case (modify r event)
    with assms(1-3) show ?thesis
      by (simp add: updateCursor_drag updatePosture_def liveRef_def)
  next
    case (push event)
    with assms(1-3) show ?thesis
      by (simp add: updateCursor_drag updatePosture_def liveRef_def)
  qed
qed

lemma updateCursor_not_release_returns:
  assumes "mMoving s" and "\<not> releaseFrame f"
    and "\<not> hasWorldInv ops f \<or> hasTimeLines (target f)" and "liveRef s w"
  shows "\<exists>m s' w'. updateCursor ops k f s w = Inr (m, s', w') \<and> mMoving s' \<and> liveRef s' w'"
proof -
  consider "pressFrame f" | "dragFrame f" "hasWorldInv ops f" | "dragFrame f" "\<not> hasWorldInv ops f"
    | "idleFrame f"
    using frame_cases assms(2) by blast
  then show ?thesis
  proof cases
    case 1 with assms show ?thesis by (auto simp: updateCursor_press liveRef_def)
  next
    case 2
    with assms(3) have "hasTimeLines (target f)" by simp
    from updateCursor_drag_result[OF 2(1) assms(1) 2(2) this assms(4)] show ?thesis by blast
  next
    case 3 with assms show ?thesis by (auto simp: updateCursor_drag liveRef_def)
  next
    case 4 with assms show ?thesis by (auto simp: updateCursor_idle liveRef_def)
  qed
qed

lemma drag_modify_step:
  assumes "dragStep ops d" and "isModifiable d r" and "mMoving s"
    and "mCommandRef s = Some r" and "r < length (commands w)"
  shows "\<exists>s' w'. updateCursor ops k d s w = Inr (True, s', w') \<and>
           mCommandRef s' = Some r \<and> pushed w' = pushed w \<and>
           commands w' =
             (commands w)[r := modifyValue (dragValue ops k d (mBaseVec s)) (commands w ! r)]"
proof -
  from assms(4,5) have live: "liveRef s w" by (simp add: liveRef_def)
  from assms(1,3) live show ?thesis
  proof (cases rule: updateCursor_drag_cases[where k = k])
    case (modify r' event)
    with assms(4) show ?thesis by simp
  next
    case (push event)
    with assms(2,4) show ?thesis by (simp add: modifiableRef_def)
  qed
qed

lemma toLocal_cong:
  "mtx (keyOwner f) = mtx (keyOwner g) \<Longrightarrow> locSRMtx (keyOwner f) = locSRMtx (keyOwner g)
   \<Longrightarrow> toLocal ops f v = toLocal ops g v"
  by (simp add: toLocal_def worldInv_def)

subsection \<open>Sequences of drag frames\<close>

text \<open>Two invariants of a run of drag frames during a gesture: while the stack reports
  the retained command modifiable nothing is pushed; and whatever the stack reports, the
  retained command is the last command object, every command created has the "from"
  value of the press, and the last one carries the value of the last drag.\<close>

lemma updateCursors_append:
  "updateCursors ops k (fs @ gs) s w =
     (case updateCursors ops k fs s w of
        Inl e \<Rightarrow> Inl e
      | Inr (s', w') \<Rightarrow> updateCursors ops k gs s' w')"
  by (induction fs arbitrary: s w) (auto split: sum.splits)

lemma drags_modify:
  assumes "\<forall>d\<in>set ds. dragStep ops d \<and> isModifiable d r"
    and "mMoving s" and "mCommandRef s = Some r" and "r < length (commands w)"
  shows "\<exists>s' w'. updateCursors ops k ds s w = Inr (s', w') \<and>
           mMoving s' \<and> mCommandRef s' = Some r \<and>
           mBaseVec s' = mBaseVec s \<and> mBaseCenter s' = mBaseCenter s \<and>
           pushed w' = pushed w \<and> length (commands w') = length (commands w)"
  using assms
proof (induction ds arbitrary: s w)
  case Nil
  then show ?case by simp
next
  case (Cons d ds)
  from Cons.prems have d: "dragStep ops d" "isModifiable d r" by simp_all
  from Cons.prems have live: "liveRef s w" by (simp add: liveRef_def)
  from d(1) Cons.prems(2) live show ?case
  proof (cases rule: updateCursor_drag_cases[where k = k])
    case (modify r' event)
    let ?s = "s\<lparr>mFocusing := focusingAt ops d\<rparr>"
    let ?w = "w\<lparr>commands := (commands w)
                   [r' := modifyValue (dragValue ops k d (mBaseVec s)) (commands w ! r')],
                timeLineModified := timeLineModified w @ [event],
                nodeAttributeModified := nodeAttributeModified w @ [nodeId (target d)],
                postureUpdates := Suc (postureUpdates w)\<rparr>"
    have "\<exists>s' w'. updateCursors ops k ds ?s ?w = Inr (s', w') \<and>
           mMoving s' \<and> mCommandRef s' = Some r \<and>
           mBaseVec s' = mBaseVec ?s \<and> mBaseCenter s' = mBaseCenter ?s \<and>
           pushed w' = pushed ?w \<and> length (commands w') = length (commands ?w)"
      using Cons.prems by (intro Cons.IH) simp_all
    with modify(4) show ?thesis by auto
  next
    case (push event)
    with Cons.prems(3) d(2) show ?thesis by (simp add: modifiableRef_def)
  qed
qed

lemma last_command_update:
  "(cs @ old @ [c])[length cs + length old := y] = cs @ old @ [y]"
  "(cs @ old @ [c]) ! (length cs + length old) = c"
  using list_update_length[of "cs @ old" c "[]" y] nth_append_length[of "cs @ old" c "[]"]
  by simp_all

lemma drags_general:
  assumes "\<forall>d\<in>set ds. dragStep ops d"
    and "mMoving s" and "mCommandRef s = Some (length cs + length old)"
    and "commands w = cs @ old @ [c]"
    and "\<forall>x\<in>set (old @ [c]). moverFrom x = mBaseCenter s"
  shows "\<exists>s' w' old' c'.
           updateCursors ops k ds s w = Inr (s', w') \<and> mMoving s' \<and>
           mBaseVec s' = mBaseVec s \<and> mBaseCenter s' = mBaseCenter s \<and>
           mCommandRef s' = Some (length cs + length old') \<and>
           commands w' = cs @ old' @ [c'] \<and>
           (\<forall>x\<in>set (old' @ [c']). moverFrom x = mBaseCenter s) \<and>
           moverTo c' = (if ds = [] then moverTo c
                         else dragValue ops k (last ds) (mBaseVec s)) \<and>
           ((\<forall>d\<in>set ds. isModifiable d (length cs + length old)) \<longrightarrow> old' = old)"
  using assms
proof (induction ds arbitrary: s w old c)
  case Nil
  then show ?case by simp
next
  case (Cons d ds)
  from Cons.prems have d: "dragStep ops d" and ds: "\<forall>d\<in>set ds. dragStep ops d" by simp_all
  from Cons.prems have live: "liveRef s w" by (simp add: liveRef_def)
  let ?v = "dragValue ops k d (mBaseVec s)"
  from d Cons.prems(2) live show ?case
  proof (cases rule: updateCursor_drag_cases[where k = k])
    case (modify r' event)
    let ?s = "s\<lparr>mFocusing := focusingAt ops d\<rparr>"
    let ?c = "modifyValue ?v c"
    let ?w = "w\<lparr>commands := (commands w)[r' := modifyValue ?v (commands w ! r')],
                timeLineModified := timeLineModified w @ [event],
                nodeAttributeModified := nodeAttributeModified w @ [nodeId (target d)],
                postureUpdates := Suc (postureUpdates w)\<rparr>"
    from modify(1) Cons.prems(3) have r': "r' = length cs + length old" by simp
    have cw: "commands ?w = cs @ old @ [?c]"
      by (simp add: r' Cons.prems(4) last_command_update)
    have fr: "\<forall>x\<in>set (old @ [?c]). moverFrom x = mBaseCenter ?s"
      using Cons.prems(5) by (simp add: modifyValue_def)
    have bv: "mBaseVec ?s = mBaseVec s" and bc: "mBaseCenter ?s = mBaseCenter s" by simp_all
    have mv: "mMoving ?s" and rf: "mCommandRef ?s = Some (length cs + length old)"
      using Cons.prems(2,3) by simp_all
    from Cons.IH[OF ds mv rf cw fr, unfolded bv bc]
    obtain s' w' old' c' where
      ih: "updateCursors ops k ds ?s ?w = Inr (s', w')" "mMoving s'"
        "mBaseVec s' = mBaseVec s" "mBaseCenter s' = mBaseCenter s"
        "mCommandRef s' = Some (length cs + length old')"
        "commands w' = cs @ old' @ [c']"
        "\<forall>x\<in>set (old' @ [c']). moverFrom x = mBaseCenter s"
        "moverTo c' = (if ds = [] then moverTo ?c else dragValue ops k (last ds) (mBaseVec s))"
        "(\<forall>d\<in>set ds. isModifiable d (length cs + length old)) \<longrightarrow> old' = old"
      by blast
    have run: "updateCursors ops k (d # ds) s w = Inr (s', w')"
      using modify(4) ih(1) by simp
    have to: "moverTo c' = (if d # ds = [] then moverTo c
                            else dragValue ops k (last (d # ds)) (mBaseVec s))"
      using ih(8) by (simp add: modifyValue_def)
    from ih(9) have "(\<forall>x\<in>set (d # ds). isModifiable x (length cs + length old)) \<longrightarrow> old' = old"
      by simp
    with run ih(2-7) to show ?thesis by blast
  next
    case (push event)
    let ?s = "s\<lparr>mFocusing := focusingAt ops d, mCommandRef := Some (length (commands w))\<rparr>"
    let ?c = "\<lparr>moverNode = nodeId (target d), moverFrom = mBaseCenter s, moverTo = ?v\<rparr>"
    let ?w = "w\<lparr>commands := commands w @ [?c],
                pushed := pushed w @
                   [\<lparr>macroName = ''move centroid'',
                     listeners = [Notifier event, AttributeNotifier (nodeId (target d))],
                     command = length (commands w)\<rparr>],
                postureUpdates := Suc (postureUpdates w)\<rparr>"
    have cw: "commands ?w = cs @ (old @ [c]) @ [?c]" by (simp add: Cons.prems(4))
    have fr: "\<forall>x\<in>set ((old @ [c]) @ [?c]). moverFrom x = mBaseCenter ?s"
      using Cons.prems(5) by simp
    have bv: "mBaseVec ?s = mBaseVec s" and bc: "mBaseCenter ?s = mBaseCenter s" by simp_all
    have mv: "mMoving ?s" and rf: "mCommandRef ?s = Some (length cs + length (old @ [c]))"
      using Cons.prems(2,4) by simp_all
    from Cons.IH[OF ds mv rf cw fr, unfolded bv bc]
    obtain s' w' old' c' where
      ih: "updateCursors ops k ds ?s ?w = Inr (s', w')" "mMoving s'"
        "mBaseVec s' = mBaseVec s" "mBaseCenter s' = mBaseCenter s"
        "mCommandRef s' = Some (length cs + length old')"
        "commands w' = cs @ old' @ [c']"
        "\<forall>x\<in>set (old' @ [c']). moverFrom x = mBaseCenter s"
        "moverTo c' = (if ds = [] then moverTo ?c else dragValue ops k (last ds) (mBaseVec s))"
      by blast
    have run: "updateCursors ops k (d # ds) s w = Inr (s', w')"
      using push(2) ih(1) by simp
    have to: "moverTo c' = (if d # ds = [] then moverTo c
                            else dragValue ops k (last (d # ds)) (mBaseVec s))"
      using ih(8) by simp
    have "\<not> isModifiable d (length cs + length old)"
      using push(1) Cons.prems(3) by (simp add: modifiableRef_def)
    then have "(\<forall>x\<in>set (d # ds). isModifiable x (length cs + length old)) \<longrightarrow> old' = old"
      by simp
    with run ih(2-7) to show ?thesis by blast
  qed
qed

subsection \<open>Evaluating the concrete instance\<close>

lemma sqrt_le_30: "sqrt x \<le> 30 \<longleftrightarrow> x \<le> 900"
proof -
  have "sqrt 900 = 30" by (rule real_sqrt_unique) auto
  then show ?thesis using real_sqrt_le_iff[of x 900] by simp
qed

lemmas ex_defs = exFrame_def exOwner_def exSingularOwner_def scalingOps_def exMode_def
  exWorld_def exCamera_def exConstant_def exLayer_def exTimeLine_def

lemmas geom_defs = getWorldCentroidPos_def toVector2D_def toVector3D_def vsub_def vadd_def
  vlength_def kCrossRadius_def focusingAt_def hasWorldInv_def worldInv_def toLocal_def

lemmas ex_defs2 = ex_defs exDragging_def exDragWorld_def exEntry_def

lemma exFrame_sel:
  "keyOwner (exFrame ko px py p d r m) = ko"
  "target (exFrame ko px py p d r m) = exLayer"
  "camera (exFrame ko px py p d r m) = exCamera"
  "worldPos (cursor (exFrame ko px py p d r m)) = QVector2D px py"
  "isModifiable (exFrame ko px py p d r m) i = m"
  by (simp_all add: exFrame_def)

lemma exLayer_sel:
  "timeLine exLayer = Some (exTimeLine [0, 10, 20] [5])" "nodeId exLayer = 1"
  by (simp_all add: exLayer_def)

lemma exLayer_hasTimeLines: "hasTimeLines exLayer"
  by (simp add: hasTimeLines_def exLayer_def)

lemma exLayer_event:
  "keyValueEvent exLayer =
     Inr \<lparr>eventType = Type_ChangeKeyValue,
          targets = [Target 1 TimeKeyType_SRT 0, Target 1 TimeKeyType_SRT 10,
                     Target 1 TimeKeyType_SRT 20, Target 1 TimeKeyType_SRT 5]\<rparr>"
  by (simp add: keyValueEvent_def exLayer_def exTimeLine_def newTimeLineEvent_def
        pushEventTarget_def pushTarget_def setType_def)

lemma ex_frames:
  "pressFrame (exFrame ko px py True d r m)"
  "dragFrame (exFrame ko px py False True r m)"
  "releaseFrame (exFrame ko px py False False True m)"
  "idleFrame (exFrame ko px py False False False m)"
  "\<not> idleFrame (exFrame ko px py True d r m)"
  "\<not> idleFrame (exFrame ko px py False True r m)"
  "\<not> releaseFrame (exFrame ko px py True d r m)"
  "\<not> releaseFrame (exFrame ko px py False True r m)"
  "\<not> releaseFrame (exFrame ko px py False False False m)"
  by (simp_all add: pressFrame_def dragFrame_def releaseFrame_def idleFrame_def exFrame_def)

lemma ex_inv: "hasWorldInv scalingOps (exFrame exOwner px py p d r m)"
  and ex_not_inv: "\<not> hasWorldInv scalingOps (exFrame exSingularOwner px py p d r m)"
  by (simp_all add: ex_defs geom_defs)

lemma ex_centroid: "getWorldCentroidPos scalingOps exOwner = QVector2D 10 20"
  by (simp add: ex_defs geom_defs)

lemma ex_toLocal:
  "toLocal scalingOps (exFrame exOwner px py p d r m) (QVector2D a b) = QVector2D (a / 2) (b / 2)"
  by (simp add: ex_defs geom_defs)

lemma ex_focusingAt:
  "focusingAt scalingOps (exFrame exOwner px py p d r m) \<longleftrightarrow>
     (10 - px) * (10 - px) + (20 - py) * (20 - py) \<le> 900"
  by (simp add: focusingAt_def exFrame_sel ex_centroid exCamera_def vlength_def vsub_def
        kCrossRadius_def sqrt_le_30)

lemma ex_focus_near: "focusingAt scalingOps (exFrame exOwner 7 16 p d r m)"
  and ex_focus_near_singular: "focusingAt scalingOps (exFrame exSingularOwner 7 16 p d r m)"
  and ex_focus_far: "\<not> focusingAt scalingOps (exFrame exOwner 110 20 p d r m)"
  and ex_focus_far_singular: "\<not> focusingAt scalingOps (exFrame exSingularOwner 110 20 p d r m)"
  by (simp_all add: ex_defs geom_defs sqrt_le_30)

lemma ex_dragStep: "dragStep scalingOps (exFrame exOwner px py False True r m)"
  by (simp add: dragStep_def ex_frames ex_inv exFrame_sel exLayer_hasTimeLines)

lemma ex_pressBase:
  "pressBaseVec scalingOps (exFrame exOwner 7 16 p d r m) = QVector2D 3 4"
  "pressBaseCenter scalingOps (exFrame exOwner 7 16 p d r m) = QVector2D 5 10"
  by (simp_all add: pressBaseVec_def pressBaseCenter_def exFrame_sel ex_centroid ex_toLocal
        vsub_def)

lemma ex_dragValue:
  "dragValue scalingOps exConstant (exFrame exOwner 17 36 p d r m) (QVector2D 3 4) = QVector2D 10 20"
  "dragValue scalingOps exConstant (exFrame exOwner 397 16 p d r m) (QVector2D 3 4) = QVector2D 100 10"
  by (simp_all add: dragValue_def exFrame_sel ex_toLocal vadd_def clampCenter_def xc_clamp_def
        exConstant_def)

text \<open>The concrete gesture, evaluated: one command from (5, 10) to (100, 10), the second
  coordinate pair being (200, 10) clamped.\<close>

lemma exGesture_run:
  "updateCursors scalingOps exConstant exGesture exMode exWorld =
     Inr (\<lparr>mFocusing = False, mMoving = False, mBaseVec = QVector2D 3 4,
            mBaseCenter = QVector2D 5 10, mCommandRef = None\<rparr>,
          \<lparr>commands = [\<lparr>moverNode = 1, moverFrom = QVector2D 5 10, moverTo = QVector2D 100 10\<rparr>],
            pushed = [exEntry],
            timeLineModified =
              [\<lparr>eventType = Type_ChangeKeyValue,
                targets = [Target 1 TimeKeyType_SRT 0, Target 1 TimeKeyType_SRT 10,
                           Target 1 TimeKeyType_SRT 20, Target 1 TimeKeyType_SRT 5]\<rparr>],
            nodeAttributeModified = [1], postureUpdates = 2\<rparr>)"
  by (simp add: exGesture_def updateCursor_press updateCursor_drag updateCursor_release ex_frames
        ex_inv ex_focusingAt exFrame_sel ex_centroid ex_toLocal vsub_def vadd_def
        moveCentroid_def pushCommand_def modifyCommand_def modifyValue_def updatePosture_def
        clampCenter_def xc_clamp_def exConstant_def exMode_def exWorld_def exEntry_def
        exLayer_event[unfolded keyValueEvent_def] exLayer_sel)

subsection \<open>The gesture and its command (claims C1 to C3)\<close>

text \<open>
  Claim C1. Take a press on which the cursor focuses the handle and the world matrix is
  invertible, then one or more drag frames with an invertible world matrix (on a node
  with its time lines), then a release, and let the command stack report the command
  created by the first drag as modifiable at every later drag. Then the calls return,
  and exactly one entry has been pushed on the command stack, for one new command
  object. At every drag after the first the manipulator holds the reference to that
  command before and after the call, the pushes are the same before and after, and the
  command's value has been replaced in place by the clamped local position of that drag.
\<close>

theorem gesture_pushes_one_command:
  assumes "pressFrame p" and "focusingAt ops p" and "hasWorldInv ops p"
    and "ds \<noteq> []" and "\<forall>d\<in>set ds. dragStep ops d"
    and "\<forall>d\<in>set (tl ds). isModifiable d (length (commands w))"
    and "releaseFrame r"
  shows "\<exists>s' w' entry.
           updateCursors ops k (p # ds @ [r]) s w = Inr (s', w') \<and>
           pushed w' = pushed w @ [entry] \<and> command entry = length (commands w) \<and>
           length (commands w') = Suc (length (commands w)) \<and>
           (\<forall>i. 0 < i \<and> i < length ds \<longrightarrow>
              (\<exists>si wi si' wi'.
                 updateCursors ops k (p # take i ds) s w = Inr (si, wi) \<and>
                 updateCursor ops k (ds ! i) si wi = Inr (True, si', wi') \<and>
                 mCommandRef si = Some (length (commands w)) \<and>
                 mCommandRef si' = Some (length (commands w)) \<and>
                 pushed wi = pushed w @ [entry] \<and> pushed wi' = pushed wi \<and>
                 commands wi' =
                   (commands wi)[length (commands w) :=
                      modifyValue (dragValue ops k (ds ! i) (pressBaseVec ops p))
                        (commands wi ! length (commands w))]))"
proof -
  let ?r = "length (commands w)"
  from assms(4) obtain d ds' where ds: "ds = d # ds'" by (cases ds) auto
  let ?s1 = "s\<lparr>mFocusing := True, mMoving := True, mBaseVec := pressBaseVec ops p,
                mBaseCenter := pressBaseCenter ops p, mCommandRef := None\<rparr>"
  have press: "updateCursor ops k p s w = Inr (True, ?s1, w)"
    using assms(1-3) by (rule updateCursor_grab)
  from assms(5) ds have d: "dragStep ops d" by simp
  from assms(5,6) ds have ds': "\<forall>x\<in>set ds'. dragStep ops x \<and> isModifiable x ?r" by simp
  have "mMoving ?s1" "liveRef ?s1 w" by (simp_all add: liveRef_def)
  with d obtain s2 w2 entry where first: "updateCursor ops k d ?s1 w = Inr (True, s2, w2)"
    and s2: "mMoving s2" "mCommandRef s2 = Some ?r" "mBaseVec s2 = pressBaseVec ops p"
    and w2: "pushed w2 = pushed w @ [entry]" "command entry = ?r"
      "length (commands w2) = Suc ?r"
  proof (cases rule: updateCursor_drag_cases[where k = k])
    case (modify r' event)
    then show ?thesis by simp
  next
    case (push event)
    show ?thesis
      by (rule that[OF push(2), where entry =
            "\<lparr>macroName = ''move centroid'',
              listeners = [Notifier event, AttributeNotifier (nodeId (target d))],
              command = length (commands w)\<rparr>"]) simp_all
  qed
  have run: "\<exists>sx wx. updateCursors ops k (p # d # xs) s w = Inr (sx, wx) \<and>
               mMoving sx \<and> mCommandRef sx = Some ?r \<and> mBaseVec sx = pressBaseVec ops p \<and>
               pushed wx = pushed w @ [entry] \<and> length (commands wx) = Suc ?r"
    if "set xs \<subseteq> set ds'" for xs
  proof -
    from that ds' have "\<forall>x\<in>set xs. dragStep ops x \<and> isModifiable x ?r" by blast
    from drags_modify[OF this s2(1,2), of w2 k] w2(3) s2(3) w2(1) press first
    show ?thesis by auto
  qed
  from run[of ds'] obtain s3 w3 where
    r3: "updateCursors ops k (p # d # ds') s w = Inr (s3, w3)"
      "pushed w3 = pushed w @ [entry]" "length (commands w3) = Suc ?r"
    by auto
  let ?s4 = "s3\<lparr>mFocusing := focusingAt ops r, mCommandRef := None, mMoving := False\<rparr>"
  have "updateCursors ops k ((p # d # ds') @ [r]) s w = Inr (?s4, w3)"
    unfolding updateCursors_append r3(1) using assms(7) by (simp add: updateCursor_release)
  then have final: "updateCursors ops k (p # ds @ [r]) s w = Inr (?s4, w3)"
    by (simp add: ds)
  have steps: "\<exists>si wi si' wi'.
                 updateCursors ops k (p # take i ds) s w = Inr (si, wi) \<and>
                 updateCursor ops k (ds ! i) si wi = Inr (True, si', wi') \<and>
                 mCommandRef si = Some ?r \<and> mCommandRef si' = Some ?r \<and>
                 pushed wi = pushed w @ [entry] \<and> pushed wi' = pushed wi \<and>
                 commands wi' =
                   (commands wi)[?r :=
                      modifyValue (dragValue ops k (ds ! i) (pressBaseVec ops p))
                        (commands wi ! ?r)]"
    if i: "0 < i \<and> i < length ds" for i
  proof -
    from i obtain j where j: "i = Suc j" "j < length ds'" by (cases i) (auto simp: ds)
    have tk: "take i ds = d # take j ds'" and nth: "ds ! i = ds' ! j"
      by (simp_all add: ds j)
    have "set (take j ds') \<subseteq> set ds'" by (rule set_take_subset)
    from run[OF this] obtain si wi where
      si: "updateCursors ops k (p # take i ds) s w = Inr (si, wi)"
        "mMoving si" "mCommandRef si = Some ?r" "mBaseVec si = pressBaseVec ops p"
        "pushed wi = pushed w @ [entry]" "length (commands wi) = Suc ?r"
      unfolding tk by auto
    from j(2) ds' have dj: "dragStep ops (ds' ! j)" "isModifiable (ds' ! j) ?r" by simp_all
    from si(6) have "?r < length (commands wi)" by simp
    from drag_modify_step[OF dj si(2,3) this, of k] si show ?thesis
      unfolding nth by auto
  qed
  from final r3(2,3) w2(2) steps show ?thesis by blast
qed

theorem gesture_pushes_one_command_witness:
  "pressFrame (exFrame exOwner 7 16 True False False True) \<and>
   focusingAt scalingOps (exFrame exOwner 7 16 True False False True) \<and>
   hasWorldInv scalingOps (exFrame exOwner 7 16 True False False True) \<and>
   dragStep scalingOps (exFrame exOwner 17 36 False True False True) \<and>
   dragStep scalingOps (exFrame exOwner 397 16 False True False True) \<and>
   isModifiable (exFrame exOwner 397 16 False True False True) (length (commands exWorld)) \<and>
   releaseFrame (exFrame exOwner 397 16 False False True True) \<and>
   (\<exists>s' w' entry.
      updateCursors scalingOps exConstant exGesture exMode exWorld = Inr (s', w') \<and>
      pushed w' = [entry] \<and> command entry = 0 \<and> length (commands w') = 1 \<and>
      (\<exists>si wi si' wi'.
         updateCursors scalingOps exConstant (take 2 exGesture) exMode exWorld = Inr (si, wi) \<and>
         updateCursor scalingOps exConstant (exFrame exOwner 397 16 False True False True) si wi =
           Inr (True, si', wi') \<and>
         mCommandRef si = Some 0 \<and> mCommandRef si' = Some 0 \<and>
         pushed wi = [entry] \<and> pushed wi' = [entry] \<and>
         commands wi' = (commands wi)[0 := modifyValue (QVector2D 100 10) (commands wi ! 0)]))"
proof -
  let ?p = "exFrame exOwner 7 16 True False False True"
  let ?d1 = "exFrame exOwner 17 36 False True False True"
  let ?d2 = "exFrame exOwner 397 16 False True False True"
  let ?r = "exFrame exOwner 397 16 False False True True"
  have h1: "pressFrame ?p" and h7: "releaseFrame ?r" by (rule ex_frames)+
  have h2: "focusingAt scalingOps ?p" by (simp add: ex_focusingAt)
  have h3: "hasWorldInv scalingOps ?p" by (rule ex_inv)
  have h4: "[?d1, ?d2] \<noteq> []" by simp
  have d1: "dragStep scalingOps ?d1" and d2: "dragStep scalingOps ?d2" by (rule ex_dragStep)+
  then have h5: "\<forall>d\<in>set [?d1, ?d2]. dragStep scalingOps d" by simp
  have m: "isModifiable ?d2 (length (commands exWorld))" by (simp add: exFrame_sel)
  then have h6: "\<forall>d\<in>set (tl [?d1, ?d2]). isModifiable d (length (commands exWorld))" by simp
  have g: "?p # [?d1, ?d2] @ [?r] = exGesture" "?p # take 1 [?d1, ?d2] = take 2 exGesture"
    by (simp_all add: exGesture_def)
  have w0: "length (commands exWorld) = 0" "pushed exWorld = []" by (simp_all add: exWorld_def)
  from gesture_pushes_one_command [OF h1 h2 h3 h4 h5 h6 h7, of exConstant exMode]
  obtain s' w' entry where
    r: "updateCursors scalingOps exConstant exGesture exMode exWorld = Inr (s', w')"
       "pushed w' = [entry]" "command entry = 0" "length (commands w') = 1"
    and st: "\<forall>i. 0 < i \<and> i < length [?d1, ?d2] \<longrightarrow>
              (\<exists>si wi si' wi'.
                 updateCursors scalingOps exConstant (?p # take i [?d1, ?d2]) exMode exWorld =
                   Inr (si, wi) \<and>
                 updateCursor scalingOps exConstant ([?d1, ?d2] ! i) si wi = Inr (True, si', wi') \<and>
                 mCommandRef si = Some 0 \<and> mCommandRef si' = Some 0 \<and>
                 pushed wi = [entry] \<and> pushed wi' = pushed wi \<and>
                 commands wi' =
                   (commands wi)[0 :=
                      modifyValue (dragValue scalingOps exConstant ([?d1, ?d2] ! i)
                                     (pressBaseVec scalingOps ?p))
                        (commands wi ! 0)])"
    unfolding g(1) w0 by auto
  from st[rule_format, of 1] have
    "\<exists>si wi si' wi'.
       updateCursors scalingOps exConstant (take 2 exGesture) exMode exWorld = Inr (si, wi) \<and>
       updateCursor scalingOps exConstant ?d2 si wi = Inr (True, si', wi') \<and>
       mCommandRef si = Some 0 \<and> mCommandRef si' = Some 0 \<and>
       pushed wi = [entry] \<and> pushed wi' = [entry] \<and>
       commands wi' = (commands wi)[0 := modifyValue (QVector2D 100 10) (commands wi ! 0)]"
    unfolding g(2) by (auto simp: ex_pressBase ex_dragValue)
  with r h1 h2 h3 d1 d2 m h7 show ?thesis by blast
qed

text \<open>
  Claim C2. On a drag event that moves the centroid (the manipulator is moving, the world
  matrix is invertible, and the node and its children have time lines), if
  \<^verbatim>\<open>mCommandRef\<close> is null or the command stack answers that the retained command is
  not modifiable, the call creates a new command from \<^verbatim>\<open>mBaseCenter\<close> to the clamped
  local position, pushes it under the macro "move centroid" and retains the reference to
  it; the command objects that existed before, the previously retained one among them,
  are as they were.
\<close>

theorem drag_pushes_when_not_modifiable:
  assumes "dragFrame f" and "mMoving s" and "hasWorldInv ops f"
    and "hasTimeLines (target f)" and "\<not> modifiableRef f s"
  shows "\<exists>s' w' event.
           updateCursor ops k f s w = Inr (True, s', w') \<and>
           keyValueEvent (target f) = Inr event \<and>
           mCommandRef s' = Some (length (commands w)) \<and>
           commands w' = commands w @
             [\<lparr>moverNode = nodeId (target f), moverFrom = mBaseCenter s,
               moverTo = clampCenter k
                 (toLocal ops f (vadd (worldPos (cursor f)) (mBaseVec s)))\<rparr>] \<and>
           pushed w' = pushed w @
             [\<lparr>macroName = ''move centroid'',
               listeners = [Notifier event, AttributeNotifier (nodeId (target f))],
               command = length (commands w)\<rparr>]"
proof -
  from assms(4) obtain event where ev: "keyValueEvent (target f) = Inr event"
    using keyValueEvent_total by blast
  have nm: "\<not> modifiableRef f (s\<lparr>mFocusing := focusingAt ops f\<rparr>)"
    using assms(5) by (simp add: modifiableRef_def)
  show ?thesis
    using assms(1-3) ev
    by (simp add: updateCursor_drag moveCentroid_push[OF ev nm] updatePosture_def)
qed

text \<open>The retained command 0 is reported as not modifiable: command 1 is created and
  pushed, and command 0 keeps its value.\<close>

theorem drag_pushes_when_not_modifiable_witness:
  "dragFrame (exFrame exOwner 17 36 False True False False) \<and>
   mMoving exDragging \<and>
   hasWorldInv scalingOps (exFrame exOwner 17 36 False True False False) \<and>
   hasTimeLines (target (exFrame exOwner 17 36 False True False False)) \<and>
   \<not> modifiableRef (exFrame exOwner 17 36 False True False False) exDragging \<and>
   (\<exists>s' w'. updateCursor scalingOps exConstant (exFrame exOwner 17 36 False True False False)
               exDragging exDragWorld = Inr (True, s', w') \<and>
      mCommandRef s' = Some 1 \<and>
      commands w' =
        [\<lparr>moverNode = 1, moverFrom = QVector2D 5 10, moverTo = QVector2D 6 11\<rparr>,
         \<lparr>moverNode = 1, moverFrom = QVector2D 5 10, moverTo = QVector2D 10 20\<rparr>] \<and>
      pushed w' = [exEntry, exEntry\<lparr>command := 1\<rparr>])"
proof -
  let ?f = "exFrame exOwner 17 36 False True False False"
  have h1: "dragFrame ?f" by (simp add: dragFrame_def exFrame_def)
  have h2: "mMoving exDragging" by (simp add: exDragging_def)
  have h3: "hasWorldInv scalingOps ?f" by (simp add: ex_defs geom_defs)
  have h4: "hasTimeLines (target ?f)" by (simp add: exFrame_def exLayer_hasTimeLines)
  have h5: "\<not> modifiableRef ?f exDragging"
    by (simp add: modifiableRef_def exDragging_def exFrame_def)
  have ev: "keyValueEvent (target ?f) = keyValueEvent exLayer" by (simp add: exFrame_def)
  have loc: "clampCenter exConstant (toLocal scalingOps ?f
               (vadd (worldPos (cursor ?f)) (mBaseVec exDragging))) = QVector2D 10 20"
    by (simp add: ex_defs2 geom_defs clampCenter_def xc_clamp_def)
  from drag_pushes_when_not_modifiable [OF h1 h2 h3 h4 h5, of exConstant exDragWorld]
  obtain s' w' where
    "updateCursor scalingOps exConstant ?f exDragging exDragWorld = Inr (True, s', w')"
    "mCommandRef s' = Some 1"
    "commands w' =
       [\<lparr>moverNode = 1, moverFrom = QVector2D 5 10, moverTo = QVector2D 6 11\<rparr>,
        \<lparr>moverNode = 1, moverFrom = QVector2D 5 10, moverTo = QVector2D 10 20\<rparr>]"
    "pushed w' = [exEntry, exEntry\<lparr>command := 1\<rparr>]"
    unfolding loc ev exLayer_event
    by (auto simp: exDragging_def exDragWorld_def exEntry_def exFrame_def exLayer_def)
  with h1 h2 h3 h4 h5 show ?thesis by blast
qed

text \<open>
  Claim C3. For a gesture as in C1 (whatever the command stack answers), the calls
  return and the commands constructed during the gesture all have as their "from" value
  the local position of the handle at the press, that is the world centroid position
  mapped through the inverse of \<^verbatim>\<open>mtx * locSRMtx\<close> of the press frame. The last command
  constructed has as its "to" value the clamped image of the cursor position of the last
  drag plus the base vector of the press under the inverse of \<^verbatim>\<open>mtx * locSRMtx\<close> as
  the last drag frame reads it, which is the inverse used at the press when the two
  matrices have not changed. When the stack reports the command modifiable at every
  drag after the first, it is the only command constructed.
\<close>

theorem gesture_command_from_to:
  assumes "pressFrame p" and "focusingAt ops p" and "hasWorldInv ops p"
    and "ds \<noteq> []" and "\<forall>d\<in>set ds. dragStep ops d" and "releaseFrame r"
  shows "\<exists>s' w' new.
           updateCursors ops k (p # ds @ [r]) s w = Inr (s', w') \<and>
           commands w' = commands w @ new \<and> new \<noteq> [] \<and>
           (\<forall>c\<in>set new. moverFrom c = toLocal ops p (getWorldCentroidPos ops (keyOwner p))) \<and>
           moverTo (last new) =
             clampCenter k (toLocal ops (last ds)
               (vadd (worldPos (cursor (last ds))) (pressBaseVec ops p))) \<and>
           (mtx (keyOwner (last ds)) = mtx (keyOwner p) \<and>
            locSRMtx (keyOwner (last ds)) = locSRMtx (keyOwner p)
            \<longrightarrow> moverTo (last new) =
                  clampCenter k (toLocal ops p
                    (vadd (worldPos (cursor (last ds))) (pressBaseVec ops p)))) \<and>
           ((\<forall>d\<in>set (tl ds). isModifiable d (length (commands w))) \<longrightarrow> length new = 1)"
proof -
  from assms(4) obtain d ds' where ds: "ds = d # ds'" by (cases ds) auto
  let ?s1 = "s\<lparr>mFocusing := True, mMoving := True, mBaseVec := pressBaseVec ops p,
                mBaseCenter := pressBaseCenter ops p, mCommandRef := None\<rparr>"
  have press: "updateCursor ops k p s w = Inr (True, ?s1, w)"
    using assms(1-3) by (rule updateCursor_grab)
  from assms(5) ds have d: "dragStep ops d" and ds': "\<forall>x\<in>set ds'. dragStep ops x"
    by simp_all
  let ?c0 = "\<lparr>moverNode = nodeId (target d), moverFrom = pressBaseCenter ops p,
              moverTo = dragValue ops k d (pressBaseVec ops p)\<rparr>"
  have "mMoving ?s1" "liveRef ?s1 w" by (simp_all add: liveRef_def)
  with d obtain s2 w2 where first: "updateCursor ops k d ?s1 w = Inr (True, s2, w2)"
    and s2: "mMoving s2" "mCommandRef s2 = Some (length (commands w) + length ([]::CentroidMover list))"
      "mBaseVec s2 = pressBaseVec ops p" "mBaseCenter s2 = pressBaseCenter ops p"
    and w2: "commands w2 = commands w @ [] @ [?c0]"
  proof (cases rule: updateCursor_drag_cases[where k = k])
    case (modify r' event)
    then show ?thesis by simp
  next
    case (push event)
    show ?thesis by (rule that[OF push(2)]) simp_all
  qed
  have fr: "\<forall>x\<in>set ([] @ [?c0]). moverFrom x = mBaseCenter s2" by (simp add: s2(4))
  from drags_general[OF ds' s2(1,2) w2 fr, of k, unfolded s2(3,4)]
  obtain s3 w3 old' c' where
    r3: "updateCursors ops k ds' s2 w2 = Inr (s3, w3)"
      "commands w3 = commands w @ old' @ [c']"
      "\<forall>x\<in>set (old' @ [c']). moverFrom x = pressBaseCenter ops p"
      "moverTo c' = (if ds' = [] then moverTo ?c0
                     else dragValue ops k (last ds') (pressBaseVec ops p))"
      "(\<forall>d\<in>set ds'. isModifiable d (length (commands w) + length ([]::CentroidMover list)))
         \<longrightarrow> old' = []"
    by blast
  let ?s4 = "s3\<lparr>mFocusing := focusingAt ops r, mCommandRef := None, mMoving := False\<rparr>"
  have "updateCursors ops k (p # d # ds') s w = Inr (s3, w3)"
    using press first r3(1) by simp
  then have "updateCursors ops k ((p # d # ds') @ [r]) s w = Inr (?s4, w3)"
    unfolding updateCursors_append using assms(6) by (simp add: updateCursor_release)
  then have final: "updateCursors ops k (p # ds @ [r]) s w = Inr (?s4, w3)"
    by (simp add: ds)
  let ?new = "old' @ [c']"
  have c1: "commands w3 = commands w @ ?new" "?new \<noteq> []" using r3(2) by simp_all
  have c2: "\<forall>c\<in>set ?new. moverFrom c = toLocal ops p (getWorldCentroidPos ops (keyOwner p))"
    using r3(3) by (simp add: pressBaseCenter_def)
  have c3: "moverTo (last ?new) =
              clampCenter k (toLocal ops (last ds)
                (vadd (worldPos (cursor (last ds))) (pressBaseVec ops p)))"
    using r3(4) by (simp add: ds dragValue_def)
  have c4: "mtx (keyOwner (last ds)) = mtx (keyOwner p) \<and>
            locSRMtx (keyOwner (last ds)) = locSRMtx (keyOwner p)
            \<longrightarrow> moverTo (last ?new) =
                  clampCenter k (toLocal ops p
                    (vadd (worldPos (cursor (last ds))) (pressBaseVec ops p)))"
    unfolding c3 using toLocal_cong[of "last ds" p ops] by simp
  have c5: "(\<forall>d\<in>set (tl ds). isModifiable d (length (commands w))) \<longrightarrow> length ?new = 1"
    using r3(5) by (simp add: ds)
  from final c1 c2 c3 c4 c5 show ?thesis by blast
qed

theorem gesture_command_from_to_witness:
  "pressFrame (exFrame exOwner 7 16 True False False True) \<and>
   focusingAt scalingOps (exFrame exOwner 7 16 True False False True) \<and>
   hasWorldInv scalingOps (exFrame exOwner 7 16 True False False True) \<and>
   dragStep scalingOps (exFrame exOwner 17 36 False True False True) \<and>
   dragStep scalingOps (exFrame exOwner 397 16 False True False True) \<and>
   isModifiable (exFrame exOwner 397 16 False True False True) (length (commands exWorld)) \<and>
   releaseFrame (exFrame exOwner 397 16 False False True True) \<and>
   getWorldCentroidPos scalingOps exOwner = QVector2D 10 20 \<and>
   toLocal scalingOps (exFrame exOwner 7 16 True False False True) (QVector2D 10 20) =
     QVector2D 5 10 \<and>
   pressBaseVec scalingOps (exFrame exOwner 7 16 True False False True) = QVector2D 3 4 \<and>
   toLocal scalingOps (exFrame exOwner 397 16 False True False True) (QVector2D 400 20) =
     QVector2D 200 10 \<and>
   (\<exists>s' w' c.
      updateCursors scalingOps exConstant exGesture exMode exWorld = Inr (s', w') \<and>
      commands w' = [c] \<and> moverFrom c = QVector2D 5 10 \<and> moverTo c = QVector2D 100 10)"
proof -
  let ?p = "exFrame exOwner 7 16 True False False True"
  let ?d1 = "exFrame exOwner 17 36 False True False True"
  let ?d2 = "exFrame exOwner 397 16 False True False True"
  let ?r = "exFrame exOwner 397 16 False False True True"
  have h1: "pressFrame ?p" and h6: "releaseFrame ?r" by (rule ex_frames)+
  have h2: "focusingAt scalingOps ?p" by (simp add: ex_focusingAt)
  have h3: "hasWorldInv scalingOps ?p" by (rule ex_inv)
  have h4: "[?d1, ?d2] \<noteq> []" by simp
  have d1: "dragStep scalingOps ?d1" and d2: "dragStep scalingOps ?d2" by (rule ex_dragStep)+
  then have h5: "\<forall>d\<in>set [?d1, ?d2]. dragStep scalingOps d" by simp
  have m: "isModifiable ?d2 (length (commands exWorld))" by (simp add: exFrame_sel)
  have g: "?p # [?d1, ?d2] @ [?r] = exGesture" by (simp add: exGesture_def)
  have w0: "commands exWorld = []" by (simp add: exWorld_def)
  have v: "toLocal scalingOps ?p (QVector2D 10 20) = QVector2D 5 10"
    "pressBaseVec scalingOps ?p = QVector2D 3 4"
    "toLocal scalingOps ?d2 (QVector2D 400 20) = QVector2D 200 10"
    by (simp_all add: ex_toLocal ex_pressBase)
  from gesture_command_from_to [OF h1 h2 h3 h4 h5 h6, of exConstant exMode exWorld] m
  obtain s' w' new where
    r: "updateCursors scalingOps exConstant exGesture exMode exWorld = Inr (s', w')"
       "commands w' = new" "length new = 1"
       "\<forall>c\<in>set new. moverFrom c = QVector2D 5 10"
       "moverTo (last new) = QVector2D 100 10"
    unfolding g w0
    by (auto simp: exFrame_sel ex_centroid ex_toLocal ex_pressBase vadd_def clampCenter_def
          xc_clamp_def exConstant_def)
  from r(3) obtain c where "new = [c]" by (cases new) auto
  with r have "updateCursors scalingOps exConstant exGesture exMode exWorld = Inr (s', w')"
    "commands w' = [c]" "moverFrom c = QVector2D 5 10" "moverTo c = QVector2D 100 10"
    by simp_all
  with h1 h2 h3 d1 d2 m h6 ex_centroid v show ?thesis by blast
qed

subsection \<open>Clamping (claim C4)\<close>

text \<open>
  Claim C4. For every vector passed to \<^verbatim>\<open>moveCentroid\<close> (on a node with time lines,
  and with \<^verbatim>\<open>mCommandRef\<close> null or referring to a command object), the call returns,
  and the value of the command retained after it is the clamped vector, whose components
  both lie in \<^verbatim>\<open>[transMin, transMax]\<close> provided that \<^verbatim>\<open>transMin <= transMax\<close>: the
  retained command had its value replaced by it when the stack reported it modifiable,
  and was constructed with it otherwise.
\<close>

theorem moveCentroid_writes_clamped:
  assumes "transMin k \<le> transMax k" and "hasTimeLines (target f)" and "liveRef s w"
  shows "\<exists>s' w' r.
           moveCentroid k f v s w = Inr (s', w') \<and>
           mCommandRef s' = Some r \<and> r < length (commands w') \<and>
           moverTo (commands w' ! r) = clampCenter k v \<and>
           inTransRange k (moverTo (commands w' ! r)) \<and>
           (if modifiableRef f s
            then mCommandRef s = Some r \<and>
                 commands w' = (commands w)[r := (commands w ! r)\<lparr>moverTo := clampCenter k v\<rparr>]
            else r = length (commands w) \<and>
                 commands w' = commands w @
                   [\<lparr>moverNode = nodeId (target f), moverFrom = mBaseCenter s,
                     moverTo = clampCenter k v\<rparr>])"
  using assms(2,3)
proof (cases rule: moveCentroid_cases[where k = k and v = v])
  case (modify r event)
  then have "modifiableRef f s" by (simp add: modifiableRef_def)
  with modify clampCenter_range[OF assms(1), of v] show ?thesis
    by (simp add: modifyValue_def)
next
  case (push event)
  with clampCenter_range[OF assms(1), of v] show ?thesis by simp
qed

text \<open>The vector (500, -700) lies outside the range [-100, 100]; the retained command
  receives (100, -100).\<close>

theorem moveCentroid_writes_clamped_witness:
  "transMin exConstant \<le> transMax exConstant \<and>
   hasTimeLines (target (exFrame exOwner 17 36 False True False True)) \<and>
   liveRef exDragging exDragWorld \<and>
   \<not> inTransRange exConstant (QVector2D 500 (- 700)) \<and>
   (\<exists>s' w'. moveCentroid exConstant (exFrame exOwner 17 36 False True False True)
               (QVector2D 500 (- 700)) exDragging exDragWorld = Inr (s', w') \<and>
      mCommandRef s' = Some 0 \<and>
      commands w' =
        [\<lparr>moverNode = 1, moverFrom = QVector2D 5 10, moverTo = QVector2D 100 (- 100)\<rparr>])"
proof -
  let ?f = "exFrame exOwner 17 36 False True False True"
  have h1: "transMin exConstant \<le> transMax exConstant" by (simp add: exConstant_def)
  have h2: "hasTimeLines (target ?f)" by (simp add: exFrame_def exLayer_hasTimeLines)
  have h3: "liveRef exDragging exDragWorld"
    by (simp add: liveRef_def exDragging_def exDragWorld_def)
  have h4: "\<not> inTransRange exConstant (QVector2D 500 (- 700))"
    by (simp add: inTransRange_def exConstant_def)
  have m: "modifiableRef ?f exDragging"
    by (simp add: modifiableRef_def exDragging_def exFrame_def)
  have c: "clampCenter exConstant (QVector2D 500 (- 700)) = QVector2D 100 (- 100)"
    by (simp add: clampCenter_def xc_clamp_def exConstant_def)
  from moveCentroid_writes_clamped [OF h1 h2 h3, of "QVector2D 500 (- 700)"] m
  obtain s' w' r where r:
    "moveCentroid exConstant ?f (QVector2D 500 (- 700)) exDragging exDragWorld = Inr (s', w')"
    "mCommandRef s' = Some r" "mCommandRef exDragging = Some r"
    "commands w' =
       (commands exDragWorld)[r := (commands exDragWorld ! r)\<lparr>moverTo := QVector2D 100 (- 100)\<rparr>]"
    unfolding c by auto
  from r(3) have "r = 0" by (simp add: exDragging_def)
  with r have
    "mCommandRef s' = Some 0"
    "commands w' =
       [\<lparr>moverNode = 1, moverFrom = QVector2D 5 10, moverTo = QVector2D 100 (- 100)\<rparr>]"
    by (simp_all add: exDragWorld_def)
  with r(1) h1 h2 h3 h4 show ?thesis by blast
qed

subsection \<open>Event targets (claims C5 and C6)\<close>

text \<open>
  Claim C5, amended. On an event without targets, \<^verbatim>\<open>pushEventTarget\<close> for a node that
  can hold children, has two direct children and, like each child, three keys in its SRT
  map, yields exactly 9 targets. For a node that cannot hold children and has three keys
  in its SRT map it yields 3 targets plus one for every key in the node's image map: 3
  only when the image map is empty.
\<close>

theorem pushEventTarget_count:
  "(canHoldChild n \<and> timeLine n = Some tline \<and> children n = [c1, c2] \<and>
    timeLine c1 = Some t1 \<and> timeLine c2 = Some t2 \<and>
    length (keysOf tline TimeKeyType_SRT) = 3 \<and>
    length (keysOf t1 TimeKeyType_SRT) = 3 \<and> length (keysOf t2 TimeKeyType_SRT) = 3 \<and>
    targets ev = []
    \<longrightarrow> (\<exists>ev'. pushEventTarget n ev = Inr ev' \<and> length (targets ev') = 9)) \<and>
   (\<not> canHoldChild n \<and> timeLine n = Some tline \<and>
    length (keysOf tline TimeKeyType_SRT) = 3 \<and> targets ev = []
    \<longrightarrow> (\<exists>ev'. pushEventTarget n ev = Inr ev' \<and>
           length (targets ev') = 3 + length (keysOf tline TimeKeyType_Image)))"
  by (simp add: pushEventTarget_def pushKeys_length)

text \<open>The folder with two children gives 9 targets, the layer without image keys 3, the
  layer with one image key 4.\<close>

theorem pushEventTarget_count_witness:
  "(\<exists>ev'. pushEventTarget exFolder newTimeLineEvent = Inr ev' \<and> length (targets ev') = 9) \<and>
   (\<exists>ev'. pushEventTarget exPlainLayer newTimeLineEvent = Inr ev' \<and> length (targets ev') = 3) \<and>
   (\<exists>ev'. pushEventTarget exLayer newTimeLineEvent = Inr ev' \<and> length (targets ev') = 4)"
  using pushEventTarget_count
          [of exFolder "exTimeLine [0, 10, 20] [7]"
              "ObjectNode 4 False (Some (exTimeLine [1, 2, 3] [8])) []"
              "ObjectNode 5 False (Some (exTimeLine [4, 5, 6] [])) []"
              "exTimeLine [1, 2, 3] [8]" "exTimeLine [4, 5, 6] []" newTimeLineEvent]
        pushEventTarget_count
          [of exPlainLayer "exTimeLine [0, 10, 20] []" _ _ _ _ newTimeLineEvent]
        pushEventTarget_count
          [of exLayer "exTimeLine [0, 10, 20] [5]" _ _ _ _ newTimeLineEvent]
  by (simp add: exFolder_def exLayer_def exPlainLayer_def exTimeLine_def newTimeLineEvent_def)

text \<open>
  Claim C5 as stated fails for a leaf: the layer \<open>exLayer\<close> cannot hold children and has
  exactly three keys in its SRT map, and \<^verbatim>\<open>pushEventTarget\<close> yields four targets for
  it, the fourth for the key at frame 5 of its image map.
\<close>

theorem pushEventTarget_leaf_count_counterexample:
  "canHoldChild exLayer = False \<and>
   timeLine exLayer = Some (exTimeLine [0, 10, 20] [5]) \<and>
   length (keysOf (exTimeLine [0, 10, 20] [5]) TimeKeyType_SRT) = 3 \<and>
   pushEventTarget exLayer newTimeLineEvent =
     Inr \<lparr>eventType = Type_None,
          targets = [Target 1 TimeKeyType_SRT 0, Target 1 TimeKeyType_SRT 10,
                     Target 1 TimeKeyType_SRT 20, Target 1 TimeKeyType_SRT 5]\<rparr> \<and>
   length (targets (projr (pushEventTarget exLayer newTimeLineEvent))) = 4"
  by (simp add: exLayer_def exTimeLine_def newTimeLineEvent_def pushEventTarget_def
        pushTarget_def)

text \<open>
  Claim C6. For a node that cannot hold children (and has a time line),
  \<^verbatim>\<open>pushEventTarget\<close> adds one target for every key of the node's SRT map and then one
  target for every key of the node's image map, each tagged \<^verbatim>\<open>TimeKeyType_SRT\<close>; the
  number of targets added is the number of SRT keys plus the number of image keys.
\<close>

theorem pushEventTarget_leaf_adds_image_keys:
  assumes "\<not> canHoldChild n" and "timeLine n = Some tline"
  shows "\<exists>ev'. pushEventTarget n ev = Inr ev' \<and>
           targets ev' =
             targets ev @ map (Target (nodeId n) TimeKeyType_SRT) (keysOf tline TimeKeyType_SRT)
                        @ map (Target (nodeId n) TimeKeyType_SRT) (keysOf tline TimeKeyType_Image) \<and>
           length (targets ev') =
             length (targets ev) + length (keysOf tline TimeKeyType_SRT)
               + length (keysOf tline TimeKeyType_Image)"
  using assms by (simp add: pushEventTarget_def pushKeys_targets)

theorem pushEventTarget_leaf_adds_image_keys_witness:
  "\<not> canHoldChild exLayer \<and> timeLine exLayer = Some (exTimeLine [0, 10, 20] [5]) \<and>
   (\<exists>ev'. pushEventTarget exLayer newTimeLineEvent = Inr ev' \<and>
      targets ev' = [Target 1 TimeKeyType_SRT 0, Target 1 TimeKeyType_SRT 10,
                     Target 1 TimeKeyType_SRT 20, Target 1 TimeKeyType_SRT 5] \<and>
      length (targets ev') = 4)"
  using pushEventTarget_leaf_adds_image_keys
          [of exLayer "exTimeLine [0, 10, 20] [5]" newTimeLineEvent]
  by (auto simp: exLayer_def exTimeLine_def newTimeLineEvent_def)

subsection \<open>One call of updateCursor (claims C7 to C10)\<close>

text \<open>
  Claim C7. A call of \<^verbatim>\<open>updateCursor\<close> whose world matrix \<^verbatim>\<open>mtx * locSRMtx\<close> is not
  invertible returns, without an error. On a press event and on a drag event the only
  member written is \<^verbatim>\<open>mFocusing\<close>: the manipulator does not start moving, no centroid
  move and no posture update happen, and the world is as before. \<^verbatim>\<open>mFocusing\<close> is the
  comparison of the screen distance between cursor and handle with \<^verbatim>\<open>kCrossRadius\<close>,
  which is what every call that returns, on an invertible matrix too, stores there.
\<close>

theorem updateCursor_singular_matrix:
  assumes "\<not> hasWorldInv ops f"
  shows "updateCursor ops k f s w =
           Inr (if idleFrame f then mFocusing s \<noteq> focusingAt ops f else True,
                if releaseFrame f
                then s\<lparr>mFocusing := focusingAt ops f, mCommandRef := None, mMoving := False\<rparr>
                else s\<lparr>mFocusing := focusingAt ops f\<rparr>,
                w) \<and>
         (\<forall>g s0 w0 m s' w'. updateCursor ops k g s0 w0 = Inr (m, s', w')
            \<longrightarrow> mFocusing s' = focusingAt ops g)"
proof -
  consider "pressFrame f" | "dragFrame f" | "releaseFrame f" | "idleFrame f"
    using frame_cases by blast
  then have "updateCursor ops k f s w =
           Inr (if idleFrame f then mFocusing s \<noteq> focusingAt ops f else True,
                if releaseFrame f
                then s\<lparr>mFocusing := focusingAt ops f, mCommandRef := None, mMoving := False\<rparr>
                else s\<lparr>mFocusing := focusingAt ops f\<rparr>,
                w)"
  proof cases
    case 1 with assms show ?thesis
      by (simp add: updateCursor_press) (simp add: pressFrame_def releaseFrame_def idleFrame_def)
  next
    case 2 with assms show ?thesis
      by (simp add: updateCursor_drag) (simp add: dragFrame_def releaseFrame_def idleFrame_def)
  next
    case 3 then show ?thesis
      by (simp add: updateCursor_release) (simp add: releaseFrame_def idleFrame_def)
  next
    case 4 then show ?thesis
      by (simp add: updateCursor_idle) (simp add: releaseFrame_def idleFrame_def)
  qed
  then show ?thesis using updateCursor_focusing by blast
qed

text \<open>With a singular world matrix, a press on the handle does not start a gesture, and a
  drag during a gesture far from the handle only clears \<^verbatim>\<open>mFocusing\<close>.\<close>

theorem updateCursor_singular_matrix_witness:
  "\<not> hasWorldInv scalingOps (exFrame exSingularOwner 7 16 True False False True) \<and>
   updateCursor scalingOps exConstant (exFrame exSingularOwner 7 16 True False False True)
     exMode exWorld = Inr (True, exMode\<lparr>mFocusing := True\<rparr>, exWorld) \<and>
   \<not> hasWorldInv scalingOps (exFrame exSingularOwner 110 20 False True False True) \<and>
   updateCursor scalingOps exConstant (exFrame exSingularOwner 110 20 False True False True)
     exDragging exDragWorld = Inr (True, exDragging\<lparr>mFocusing := False\<rparr>, exDragWorld)"
proof -
  let ?p = "exFrame exSingularOwner 7 16 True False False True"
  let ?d = "exFrame exSingularOwner 110 20 False True False True"
  have np: "\<not> hasWorldInv scalingOps ?p" and nd: "\<not> hasWorldInv scalingOps ?d"
    by (rule ex_not_inv)+
  show ?thesis
    using updateCursor_singular_matrix [OF np, of exConstant exMode exWorld]
          updateCursor_singular_matrix [OF nd, of exConstant exDragging exDragWorld]
    by (simp add: ex_not_inv ex_frames ex_focus_near_singular ex_focus_far_singular)
qed

text \<open>
  Claim C8. For every manipulator and every frame without press, drag or release event,
  the call returns and leaves the world as it is; after it, every call on a frame
  without event that has the same cursor position and camera (and reads the same key
  owner matrices, which no call without event writes) returns \<^verbatim>\<open>false\<close> and leaves the
  manipulator and the world as they are, and so does any sequence of such calls.
\<close>

theorem updateCursor_idle_idempotent:
  assumes "idleFrame f"
    and "\<forall>g\<in>set gs. idleFrame g \<and> keyOwner g = keyOwner f \<and> camera g = camera f \<and>
           worldPos (cursor g) = worldPos (cursor f)"
  shows "\<exists>m s'. updateCursor ops k f s w = Inr (m, s', w) \<and>
           (\<forall>g\<in>set gs. updateCursor ops k g s' w = Inr (False, s', w)) \<and>
           updateCursors ops k gs s' w = Inr (s', w)"
proof -
  let ?s = "s\<lparr>mFocusing := focusingAt ops f\<rparr>"
  have first: "updateCursor ops k f s w = Inr (mFocusing s \<noteq> focusingAt ops f, ?s, w)"
    using assms(1) by (rule updateCursor_idle)
  have again: "updateCursor ops k g ?s w = Inr (False, ?s, w)" if "g \<in> set gs" for g
  proof -
    from that assms(2) have g: "idleFrame g" "keyOwner g = keyOwner f" "camera g = camera f"
      "worldPos (cursor g) = worldPos (cursor f)" by auto
    from g(2-4) have "focusingAt ops g = focusingAt ops f" by (simp add: focusingAt_def)
    with g(1) show ?thesis by (simp add: updateCursor_idle)
  qed
  have "set hs \<subseteq> set gs \<Longrightarrow> updateCursors ops k hs ?s w = Inr (?s, w)" for hs
    by (induction hs) (simp_all add: again)
  then have "updateCursors ops k gs ?s w = Inr (?s, w)" by simp
  with first again show ?thesis by blast
qed

text \<open>The first call on a frame over the handle sets \<^verbatim>\<open>mFocusing\<close> and returns true;
  the calls after it return false and change nothing.\<close>

theorem updateCursor_idle_idempotent_witness:
  "idleFrame (exFrame exOwner 7 16 False False False True) \<and>
   updateCursor scalingOps exConstant (exFrame exOwner 7 16 False False False True)
     exMode exWorld = Inr (True, exMode\<lparr>mFocusing := True\<rparr>, exWorld) \<and>
   updateCursor scalingOps exConstant (exFrame exOwner 7 16 False False False True)
     (exMode\<lparr>mFocusing := True\<rparr>) exWorld = Inr (False, exMode\<lparr>mFocusing := True\<rparr>, exWorld) \<and>
   updateCursors scalingOps exConstant
     [exFrame exOwner 7 16 False False False True, exFrame exOwner 7 16 False False False False]
     (exMode\<lparr>mFocusing := True\<rparr>) exWorld = Inr (exMode\<lparr>mFocusing := True\<rparr>, exWorld)"
proof -
  let ?f = "exFrame exOwner 7 16 False False False True"
  let ?g = "exFrame exOwner 7 16 False False False False"
  have h1: "idleFrame ?f" by (rule ex_frames)
  have h2: "\<forall>g\<in>set [?f, ?g]. idleFrame g \<and> keyOwner g = keyOwner ?f \<and> camera g = camera ?f \<and>
              worldPos (cursor g) = worldPos (cursor ?f)"
    by (simp add: ex_frames) (simp add: exFrame_def)
  have first: "updateCursor scalingOps exConstant ?f exMode exWorld =
                 Inr (True, exMode\<lparr>mFocusing := True\<rparr>, exWorld)"
    by (simp add: updateCursor_idle ex_frames ex_focus_near) (simp add: exMode_def)
  from updateCursor_idle_idempotent [OF h1 h2, of scalingOps exConstant exMode exWorld] first
  have "updateCursor scalingOps exConstant ?f (exMode\<lparr>mFocusing := True\<rparr>) exWorld =
          Inr (False, exMode\<lparr>mFocusing := True\<rparr>, exWorld)"
       "updateCursors scalingOps exConstant [?f, ?g] (exMode\<lparr>mFocusing := True\<rparr>) exWorld =
          Inr (exMode\<lparr>mFocusing := True\<rparr>, exWorld)"
    by auto
  with h1 first show ?thesis by blast
qed

text \<open>
  Claim C9. A call of \<^verbatim>\<open>updateCursor\<close> with a release event (and, the events being
  exclusive, neither press nor drag) returns true, leaves the world, and so the command
  stack, as it is, sets \<^verbatim>\<open>mMoving\<close> to false and \<^verbatim>\<open>mCommandRef\<close> to null. In
  particular a press followed at once by a release pushes no command.
\<close>

theorem release_without_drag:
  assumes "releaseFrame f"
  shows "updateCursor ops k f s w =
           Inr (True, s\<lparr>mFocusing := focusingAt ops f, mCommandRef := None, mMoving := False\<rparr>, w) \<and>
         (\<forall>p. pressFrame p \<longrightarrow>
            (\<exists>s'. updateCursors ops k [p, f] s w = Inr (s', w) \<and>
                   \<not> mMoving s' \<and> mCommandRef s' = None))"
  using assms by (simp add: updateCursor_release updateCursor_press)

theorem release_without_drag_witness:
  "releaseFrame (exFrame exOwner 7 16 False False True True) \<and>
   pressFrame (exFrame exOwner 7 16 True False False True) \<and>
   updateCursor scalingOps exConstant (exFrame exOwner 7 16 False False True True)
     exDragging exDragWorld =
     Inr (True, exDragging\<lparr>mFocusing := True, mCommandRef := None, mMoving := False\<rparr>,
          exDragWorld) \<and>
   (\<exists>s'. updateCursors scalingOps exConstant
            [exFrame exOwner 7 16 True False False True,
             exFrame exOwner 7 16 False False True True] exMode exWorld = Inr (s', exWorld) \<and>
          \<not> mMoving s' \<and> mCommandRef s' = None)"
proof -
  let ?r = "exFrame exOwner 7 16 False False True True"
  let ?p = "exFrame exOwner 7 16 True False False True"
  have h: "releaseFrame ?r" and p: "pressFrame ?p" by (rule ex_frames)+
  show ?thesis
    using release_without_drag [OF h, of scalingOps exConstant exDragging exDragWorld]
          release_without_drag [OF h, of scalingOps exConstant exMode exWorld] h p
    by (simp add: ex_focus_near)
qed

text \<open>
  Claim C10. During a gesture (\<^verbatim>\<open>mMoving\<close> is true), a call that returns leaves
  \<^verbatim>\<open>mMoving\<close> true unless it takes the release branch. A call that does not take the
  release branch does return with \<^verbatim>\<open>mMoving\<close> true, whether or not the cursor is
  within \<^verbatim>\<open>kCrossRadius\<close> of the handle, when the world matrix is not invertible or
  the node has its time lines; and a later drag frame with an invertible matrix then
  moves the centroid and updates the posture.
\<close>

theorem moving_cleared_only_by_release:
  assumes "mMoving s" and "liveRef s w"
  shows "(\<forall>m s' w'. updateCursor ops k f s w = Inr (m, s', w')
            \<longrightarrow> (mMoving s' \<longleftrightarrow> \<not> releaseFrame f)) \<and>
         (\<not> releaseFrame f \<and> (\<not> hasWorldInv ops f \<or> hasTimeLines (target f))
            \<longrightarrow> (\<exists>m s' w'. updateCursor ops k f s w = Inr (m, s', w') \<and> mMoving s' \<and>
                   (\<forall>g. dragFrame g \<and> hasWorldInv ops g \<and> hasTimeLines (target g)
                      \<longrightarrow> (\<exists>s'' w''. updateCursor ops k g s' w' = Inr (True, s'', w'') \<and>
                             mMoving s'' \<and> postureUpdates w'' = Suc (postureUpdates w')))))"
proof (intro conjI allI impI)
  fix m s' w'
  assume "updateCursor ops k f s w = Inr (m, s', w')"
  with assms(1) show "mMoving s' \<longleftrightarrow> \<not> releaseFrame f" by (rule updateCursor_moving)
next
  assume a: "\<not> releaseFrame f \<and> (\<not> hasWorldInv ops f \<or> hasTimeLines (target f))"
  with assms obtain m s' w' where r: "updateCursor ops k f s w = Inr (m, s', w')"
    "mMoving s'" "liveRef s' w'"
    using updateCursor_not_release_returns by blast
  have "\<exists>s'' w''. updateCursor ops k g s' w' = Inr (True, s'', w'') \<and>
          mMoving s'' \<and> postureUpdates w'' = Suc (postureUpdates w')"
    if "dragFrame g \<and> hasWorldInv ops g \<and> hasTimeLines (target g)" for g
    using updateCursor_drag_result[of g s' ops w' k] that r by blast
  with r show "\<exists>m s' w'. updateCursor ops k f s w = Inr (m, s', w') \<and> mMoving s' \<and>
                   (\<forall>g. dragFrame g \<and> hasWorldInv ops g \<and> hasTimeLines (target g)
                      \<longrightarrow> (\<exists>s'' w''. updateCursor ops k g s' w' = Inr (True, s'', w'') \<and>
                             mMoving s'' \<and> postureUpdates w'' = Suc (postureUpdates w')))"
    by blast
qed

text \<open>A drag frame far from the handle with a singular matrix leaves the gesture on; the
  next drag frame, far from the handle with an invertible matrix, moves the centroid.\<close>

theorem moving_cleared_only_by_release_witness:
  "mMoving exDragging \<and> liveRef exDragging exDragWorld \<and>
   \<not> releaseFrame (exFrame exSingularOwner 110 20 False True False True) \<and>
   \<not> hasWorldInv scalingOps (exFrame exSingularOwner 110 20 False True False True) \<and>
   \<not> focusingAt scalingOps (exFrame exSingularOwner 110 20 False True False True) \<and>
   updateCursor scalingOps exConstant (exFrame exSingularOwner 110 20 False True False True)
     exDragging exDragWorld = Inr (True, exDragging\<lparr>mFocusing := False\<rparr>, exDragWorld) \<and>
   mMoving (exDragging\<lparr>mFocusing := False\<rparr>) \<and>
   dragFrame (exFrame exOwner 110 20 False True False True) \<and>
   hasWorldInv scalingOps (exFrame exOwner 110 20 False True False True) \<and>
   hasTimeLines (target (exFrame exOwner 110 20 False True False True)) \<and>
   (\<exists>s'' w''. updateCursor scalingOps exConstant (exFrame exOwner 110 20 False True False True)
                 (exDragging\<lparr>mFocusing := False\<rparr>) exDragWorld = Inr (True, s'', w'') \<and>
      mMoving s'' \<and> postureUpdates w'' = 2)"
proof -
  let ?f = "exFrame exSingularOwner 110 20 False True False True"
  let ?g = "exFrame exOwner 110 20 False True False True"
  have h1: "mMoving exDragging" by (simp add: exDragging_def)
  have h2: "liveRef exDragging exDragWorld"
    by (simp add: liveRef_def exDragging_def exDragWorld_def)
  have f: "\<not> releaseFrame ?f" "\<not> hasWorldInv scalingOps ?f" "\<not> focusingAt scalingOps ?f"
    by (simp_all add: ex_frames ex_not_inv ex_focus_far_singular)
  have g: "dragFrame ?g" "hasWorldInv scalingOps ?g" "hasTimeLines (target ?g)"
    by (simp_all add: ex_frames ex_inv) (simp add: exFrame_def exLayer_hasTimeLines)
  have e: "updateCursor scalingOps exConstant ?f exDragging exDragWorld =
             Inr (True, exDragging\<lparr>mFocusing := False\<rparr>, exDragWorld)"
    by (simp add: updateCursor_drag ex_frames f)
  have p: "Suc (postureUpdates exDragWorld) = 2" by (simp add: exDragWorld_def)
  from moving_cleared_only_by_release [OF h1 h2, of scalingOps exConstant ?f] f e g
  have "\<exists>s'' w''. updateCursor scalingOps exConstant ?g
                 (exDragging\<lparr>mFocusing := False\<rparr>) exDragWorld = Inr (True, s'', w'') \<and>
      mMoving s'' \<and> postureUpdates w'' = Suc (postureUpdates exDragWorld)"
    by auto
  then have "\<exists>s'' w''. updateCursor scalingOps exConstant ?g
                 (exDragging\<lparr>mFocusing := False\<rparr>) exDragWorld = Inr (True, s'', w'') \<and>
      mMoving s'' \<and> postureUpdates w'' = 2"
    unfolding p .
  moreover have "mMoving (exDragging\<lparr>mFocusing := False\<rparr>)" by (simp add: exDragging_def)
  ultimately show ?thesis using h1 h2 f e g by blast
qed

end
